theory Spec2Isabelle
  imports Main "HOL-Library.Word" "HOL-Library.Signed_Division"
begin

unbundle bit_operations_syntax

section \<open>SH1107 display controller: data model\<close>

type_synonym u8 = "8 word"
type_synonym u32 = "32 word"

text \<open>Opcodes, as the \<^verbatim>\<open>#define\<close>s of main.c.\<close>

abbreviation SH1107_CONTROL_CO :: u8 where "SH1107_CONTROL_CO \<equiv> 0x80"
abbreviation SH1107_CONTROL_DC :: u8 where "SH1107_CONTROL_DC \<equiv> 0x40"

abbreviation CMD_SET_PAGE_ADDR_MODE :: u8 where "CMD_SET_PAGE_ADDR_MODE \<equiv> 0x20"
abbreviation CMD_SET_VERTICAL_ADDR_MODE :: u8 where "CMD_SET_VERTICAL_ADDR_MODE \<equiv> 0x21"
abbreviation CMD_SET_CONTRAST :: u8 where "CMD_SET_CONTRAST \<equiv> 0x81"
abbreviation CMD_SEG_REMAP_OFF :: u8 where "CMD_SEG_REMAP_OFF \<equiv> 0xa0"
abbreviation CMD_SEG_REMAP_ON :: u8 where "CMD_SEG_REMAP_ON \<equiv> 0xa1"
abbreviation CMD_DISPLAY_ALL_ON_RESUME :: u8 where "CMD_DISPLAY_ALL_ON_RESUME \<equiv> 0xa4"
abbreviation CMD_DISPLAY_ALL_ON :: u8 where "CMD_DISPLAY_ALL_ON \<equiv> 0xa5"
abbreviation CMD_NORMAL_DISPLAY :: u8 where "CMD_NORMAL_DISPLAY \<equiv> 0xa6"
abbreviation CMD_INVERT_DISPLAY :: u8 where "CMD_INVERT_DISPLAY \<equiv> 0xa7"
abbreviation CMD_SET_MULTIPLEX :: u8 where "CMD_SET_MULTIPLEX \<equiv> 0xa8"
abbreviation CMD_DCDC :: u8 where "CMD_DCDC \<equiv> 0xad"
abbreviation CMD_DISPLAY_OFF :: u8 where "CMD_DISPLAY_OFF \<equiv> 0xae"
abbreviation CMD_DISPLAY_ON :: u8 where "CMD_DISPLAY_ON \<equiv> 0xaf"
abbreviation CMD_COM_SCAN_INC :: u8 where "CMD_COM_SCAN_INC \<equiv> 0xc0"
abbreviation CMD_COM_SCAN_DEC :: u8 where "CMD_COM_SCAN_DEC \<equiv> 0xc8"
abbreviation CMD_SET_DISPLAY_OFFSET :: u8 where "CMD_SET_DISPLAY_OFFSET \<equiv> 0xd3"
abbreviation CMD_SET_DISPLAY_CLOCK_DIV :: u8 where "CMD_SET_DISPLAY_CLOCK_DIV \<equiv> 0xd5"
abbreviation CMD_SET_PRECHARGE :: u8 where "CMD_SET_PRECHARGE \<equiv> 0xd9"
abbreviation CMD_SET_COM_PINS :: u8 where "CMD_SET_COM_PINS \<equiv> 0xda"
abbreviation CMD_SET_VCOM_DESELECT :: u8 where "CMD_SET_VCOM_DESELECT \<equiv> 0xdb"
abbreviation CMD_SET_DISP_START_LINE :: u8 where "CMD_SET_DISP_START_LINE \<equiv> 0xdc"
abbreviation CMD_NOP :: u8 where "CMD_NOP \<equiv> 0xe3"

text \<open>
  \<^verbatim>\<open>const uint8_t multi_byte_commands[]\<close>: an array without a declared size, filled by
  designated initialisers. Its length is one more than the largest designator,
  \<^verbatim>\<open>CMD_SET_DISP_START_LINE = 0xdc\<close>, that is 221 elements; every element without an
  initialiser is 0.
\<close>

definition multi_byte_commands :: "u8 list" where
  "multi_byte_commands =
     (replicate 221 0)
       [unat CMD_SET_CONTRAST := 1,
        unat CMD_SET_MULTIPLEX := 1,
        unat CMD_DCDC := 1,
        unat CMD_SET_DISPLAY_OFFSET := 1,
        unat CMD_SET_COM_PINS := 1,
        unat CMD_SET_DISPLAY_CLOCK_DIV := 1,
        unat CMD_SET_PRECHARGE := 1,
        unat CMD_SET_VCOM_DESELECT := 1,
        unat CMD_SET_DISP_START_LINE := 1]"

text \<open>
  The read \<^verbatim>\<open>multi_byte_commands[value]\<close> of \<^verbatim>\<open>sh1107_i2c_write\<close>. The source has no
  bounds check; a read past the last element is undefined behaviour in C and is the
  value \<open>None\<close> here.
\<close>

definition multi_byte_commands_at :: "u8 \<Rightarrow> u8 option" where
  "multi_byte_commands_at v =
     (if unat v < length multi_byte_commands then Some (multi_byte_commands ! unat v)
      else None)"

text \<open>
  \<^verbatim>\<open>sh1107_state_t\<close>. The arrays \<^verbatim>\<open>pixels[128 * 128 / 8]\<close> and \<^verbatim>\<open>current_command[8]\<close> are
  stores from index to byte; their declared sizes are the constants below, and every
  access of the model is checked against them.

  The last four fields hold what the chip does to its host: \<open>framebuffer\<close> is the
  content of the pixel sink behind the handle of that name, \<open>timer_armed\<close> and
  \<open>timer_log\<close> are the state of the host timer behind \<^verbatim>\<open>update_timer\<close> and the calls of
  \<^verbatim>\<open>timer_start\<close> made on it, and \<open>printed\<close> is the opcodes that \<^verbatim>\<open>printf\<close> has reported
  as unknown.
\<close>

abbreviation PIXELS_SIZE :: nat where "PIXELS_SIZE \<equiv> 2048"
abbreviation COMMAND_SIZE :: nat where "COMMAND_SIZE \<equiv> 8"

record sh1107_state =
  width :: u32
  height :: u32
  x_offset :: u8
  pixels :: "nat \<Rightarrow> u8"
  display_on :: bool
  updated :: bool
  contrast :: u8
  invert :: bool
  reverse_rows :: bool
  segment_remap :: bool
  clock_divider :: u8
  multiplex_ratio :: u8
  phase1 :: u8
  phase2 :: u8
  active_column :: u8
  active_page :: u8
  memory_mode :: u8
  start_line :: u8
  control_byte :: bool
  continuous_mode :: bool
  command_mode :: bool
  current_command_index :: u8
  current_command_length :: u8
  current_command :: "nat \<Rightarrow> u8"
  framebuffer :: "nat \<Rightarrow> u8"
  timer_armed :: bool
  timer_log :: "(nat \<times> bool) list"
  printed :: "u8 list"

text \<open>
  \<^verbatim>\<open>sh1107_reset\<close>. It assigns sixteen fields and leaves the others as they are in the
  memory it is given: \<^verbatim>\<open>display_on\<close>, \<^verbatim>\<open>segment_remap\<close>, \<^verbatim>\<open>pixels\<close>, the three mode flags,
  \<^verbatim>\<open>current_command_length\<close> and \<^verbatim>\<open>current_command\<close>. \<^verbatim>\<open>x_offset\<close> is an \<^verbatim>\<open>int8_t\<close>, read
  with \<open>sint\<close>.
\<close>

definition sh1107_reset :: "sh1107_state \<Rightarrow> sh1107_state" where
  "sh1107_reset state =
     state\<lparr>width := 128,
           height := 128,
           x_offset := 96,
           memory_mode := CMD_SET_PAGE_ADDR_MODE,
           contrast := 0x7f,
           clock_divider := 1,
           multiplex_ratio := 63,
           phase1 := 2,
           phase2 := 2,
           current_command_index := 0,
           active_column := 0,
           active_page := 0,
           start_line := 0,
           reverse_rows := False,
           invert := False,
           updated := False\<rparr>"

text \<open>
  \<^verbatim>\<open>chip_init\<close>: \<^verbatim>\<open>malloc\<close> returns memory of unspecified content (the first argument),
  which \<^verbatim>\<open>sh1107_reset\<close> then initialises in part; \<^verbatim>\<open>timer_init\<close> hands out a timer that is
  not running.

  Modelled from the spec: \<^verbatim>\<open>framebuffer_init\<close> of the host API (wokwi-api.h is not part of
  the sources). The chip passes the addresses of its \<^verbatim>\<open>width\<close> and \<^verbatim>\<open>height\<close> fields, and the
  dimensions of the pixel sink are reported to the device at construction: they are the
  second and third argument, and overwrite what \<^verbatim>\<open>sh1107_reset\<close> assigned.
\<close>

definition chip_init :: "sh1107_state \<Rightarrow> u32 \<Rightarrow> u32 \<Rightarrow> sh1107_state" where
  "chip_init mem pixel_width pixel_height =
     (sh1107_reset mem)
       \<lparr>timer_armed := False, timer_log := [], width := pixel_width, height := pixel_height\<rparr>"

section \<open>Renderer trigger\<close>

text \<open>
  Modelled from the spec: \<^verbatim>\<open>timer_start\<close> of the host API (wokwi-api.h is not part of the
  sources). The device requests a one-shot callback after a fixed delay, and the host
  invokes the callback once per request. The request is recorded in \<open>timer_log\<close>.
\<close>

definition timer_start :: "sh1107_state \<Rightarrow> nat \<Rightarrow> bool \<Rightarrow> sh1107_state" where
  "timer_start state micros repeat =
     state\<lparr>timer_armed := True, timer_log := timer_log state @ [(micros, repeat)]\<rparr>"

definition sh1107_schedule_update :: "sh1107_state \<Rightarrow> sh1107_state" where
  "sh1107_schedule_update state =
     (if \<not> updated state then timer_start (state\<lparr>updated := True\<rparr>) 16667 False
      else state)"

section \<open>Command interpreter\<close>

text \<open>
  The \<^verbatim>\<open>switch\<close> of \<^verbatim>\<open>sh1107_process_command\<close>, in the order of its case labels, with
  the three range tests and the \<^verbatim>\<open>printf\<close> of the \<^verbatim>\<open>default\<close> label at the end. The
  result is the state and the local flag \<^verbatim>\<open>auto_update\<close>.
\<close>

definition command_switch :: "sh1107_state \<Rightarrow> sh1107_state \<times> bool" where
  "command_switch state =
     (let command_code = current_command state 0 in
      if command_code = CMD_SET_CONTRAST then
        (state\<lparr>contrast := current_command state 1\<rparr>, True)
      else if command_code = CMD_DISPLAY_OFF then
        (sh1107_schedule_update (state\<lparr>display_on := False\<rparr>), False)
      else if command_code = CMD_DISPLAY_ON then
        (sh1107_schedule_update (state\<lparr>display_on := True\<rparr>), False)
      else if command_code = CMD_NORMAL_DISPLAY then
        (state\<lparr>invert := False\<rparr>, True)
      else if command_code = CMD_INVERT_DISPLAY then
        (state\<lparr>invert := True\<rparr>, True)
      else if command_code = CMD_NOP then
        (state, False)
      else if command_code = CMD_SET_PAGE_ADDR_MODE
              \<or> command_code = CMD_SET_VERTICAL_ADDR_MODE then
        (state\<lparr>memory_mode := current_command state 0\<rparr>, False)
      else if command_code = CMD_SET_DISPLAY_CLOCK_DIV then
        (state\<lparr>clock_divider := 1 + (current_command state 1 AND 0xf)\<rparr>, False)
      else if command_code = CMD_SET_PRECHARGE then
        (state\<lparr>phase1 := current_command state 1 AND 0xf,
               phase2 := drop_bit 4 (current_command state 1) AND 0xf\<rparr>, False)
      else if command_code = CMD_COM_SCAN_INC then
        (state\<lparr>reverse_rows := False\<rparr>, True)
      else if command_code = CMD_COM_SCAN_DEC then
        (state\<lparr>reverse_rows := True\<rparr>, True)
      else if command_code = CMD_SEG_REMAP_OFF then
        (state\<lparr>segment_remap := False\<rparr>, True)
      else if command_code = CMD_SEG_REMAP_ON then
        (state\<lparr>segment_remap := True\<rparr>, True)
      else if command_code = CMD_SET_DISP_START_LINE then
        (state\<lparr>start_line := current_command state 1\<rparr>, True)
      else if command_code = CMD_SET_DISPLAY_OFFSET
              \<or> command_code = CMD_SET_MULTIPLEX
              \<or> command_code = CMD_SET_VCOM_DESELECT
              \<or> command_code = CMD_SET_COM_PINS
              \<or> command_code = CMD_DISPLAY_ALL_ON
              \<or> command_code = CMD_DISPLAY_ALL_ON_RESUME then
        (state, False)
      else if command_code \<le> 0x0f then
        (state\<lparr>active_column := (active_column state AND 0x70) OR command_code\<rparr>, False)
      else if command_code \<ge> 0x10 \<and> command_code \<le> 0x17 then
        (state\<lparr>active_column :=
                 (active_column state AND 0x0f) OR push_bit 4 (command_code AND 0x07)\<rparr>,
         False)
      else if command_code \<ge> 0xb0 \<and> command_code \<le> 0xc0 then
        (state\<lparr>active_page := command_code AND 0x0f\<rparr>, True)
      else
        (state\<lparr>printed := printed state @ [command_code]\<rparr>, False))"

definition sh1107_process_command :: "sh1107_state \<Rightarrow> sh1107_state" where
  "sh1107_process_command state =
     (case command_switch state of
        (s1, auto_update) \<Rightarrow>
          (let s2 = (if auto_update \<and> display_on s1 then sh1107_schedule_update s1 else s1)
           in s2\<lparr>current_command_index := 0\<rparr>))"

text \<open>
  A one-byte command as \<^verbatim>\<open>sh1107_i2c_write\<close> completes it when the command index is 0: the
  byte is stored in \<^verbatim>\<open>current_command[0]\<close> and \<^verbatim>\<open>sh1107_process_command\<close> interprets the
  buffer.
\<close>

definition interpret_opcode :: "sh1107_state \<Rightarrow> u8 \<Rightarrow> sh1107_state" where
  "interpret_opcode state c =
     sh1107_process_command (state\<lparr>current_command := (current_command state)(0 := c)\<rparr>)"

section \<open>Data writer\<close>

text \<open>
  \<^verbatim>\<open>sh1107_process_data\<close>. \<^verbatim>\<open>column\<close> and \<^verbatim>\<open>target\<close> are \<^verbatim>\<open>uint32_t\<close>; the store
  \<^verbatim>\<open>state->pixels[target] = value\<close> has no bounds check in the source and is \<open>None\<close>
  here when \<^verbatim>\<open>target\<close> is outside the array. The increments are on \<^verbatim>\<open>uint8_t\<close>.
  \<open>advance_column\<close> is the column increment with its wrap test, which the source
  writes out twice (in the page-mode case and inside the vertical-mode case).
\<close>

definition advance_column :: "sh1107_state \<Rightarrow> sh1107_state" where
  "advance_column state =
     (let s1 = state\<lparr>active_column := active_column state + 1\<rparr>
      in if (ucast (active_column s1) :: u32) \<ge> width s1 then s1\<lparr>active_column := 0\<rparr>
         else s1)"

definition sh1107_process_data :: "sh1107_state \<Rightarrow> u8 \<Rightarrow> sh1107_state option" where
  "sh1107_process_data state v =
     (let column = (if \<not> segment_remap state then ucast (active_column state)
                    else width state - 1 - ucast (active_column state)) :: u32;
          target = ucast (active_page state) * width state + column
      in if unat target < PIXELS_SIZE then
           (let s1 = state\<lparr>pixels := (pixels state)(unat target := v)\<rparr>;
                s2 = (if memory_mode s1 = CMD_SET_PAGE_ADDR_MODE then advance_column s1
                      else
                        (let s3 = s1\<lparr>active_page := active_page s1 + 1\<rparr>
                         in if active_page s3 \<ge> 0x10
                            then advance_column (s3\<lparr>active_page := 0\<rparr>)
                            else s3))
            in Some (sh1107_schedule_update s2))
         else None)"

section \<open>Renderer\<close>

text \<open>
  Modelled from the spec: \<^verbatim>\<open>buffer_write\<close> of the host API (wokwi-api.h is not part of
  the sources). The pixel sink is a byte buffer and the Renderer writes one 4-byte value
  per pixel at its byte offset. The four bytes of the \<^verbatim>\<open>uint32_t\<close> are stored lowest byte
  first.
\<close>

definition word_bytes :: "u32 \<Rightarrow> u8 list" where
  "word_bytes p = [ucast p, ucast (drop_bit 8 p), ucast (drop_bit 16 p), ucast (drop_bit 24 p)]"

fun buffer_write :: "(nat \<Rightarrow> u8) \<Rightarrow> nat \<Rightarrow> u8 list \<Rightarrow> (nat \<Rightarrow> u8)" where
  "buffer_write buf off [] = buf"
| "buffer_write buf off (b # bs) = buffer_write (buf(off := b)) (Suc off) bs"

text \<open>
  The body of the inner loop of \<^verbatim>\<open>sh1107_update_buffer\<close> up to the value of \<^verbatim>\<open>pixel\<close>,
  one definition for each of its locals \<^verbatim>\<open>scroll_y\<close>, \<^verbatim>\<open>virtual_y\<close>, \<^verbatim>\<open>pix_index\<close> and
  \<^verbatim>\<open>pixel\<close>.
  \<^verbatim>\<open>width\<close> and \<^verbatim>\<open>height\<close> are the \<^verbatim>\<open>uint8_t\<close> locals, truncated from the 32-bit fields.
  \<^verbatim>\<open>y + start_line\<close> is an \<^verbatim>\<open>int\<close> sum of two promoted bytes, stored in a \<^verbatim>\<open>uint32_t\<close>;
  \<^verbatim>\<open>height - 1 - scroll_y\<close> is a \<^verbatim>\<open>uint32_t\<close> difference and wraps around;
  \<^verbatim>\<open>(x + x_offset + width) % width\<close> is \<^verbatim>\<open>int\<close> arithmetic with C's truncating
  remainder (\<open>smod\<close>), converted to \<^verbatim>\<open>uint32_t\<close> by the sum. The read
  \<^verbatim>\<open>pixels[pix_index]\<close> has no bounds check in the source and is \<open>None\<close> here when the
  index is outside the array.
\<close>

definition scroll_y :: "sh1107_state \<Rightarrow> u8 \<Rightarrow> u32" where
  "scroll_y state y = ucast y + ucast (start_line state)"

definition virtual_y :: "sh1107_state \<Rightarrow> u8 \<Rightarrow> u32" where
  "virtual_y state y =
     (let width = (ucast (width state) :: u8);
          height = (ucast (height state) :: u8)
      in (if reverse_rows state then word_of_int (uint height - 1) - scroll_y state y
          else scroll_y state y) mod ucast width)"

definition pix_index :: "sh1107_state \<Rightarrow> u8 \<Rightarrow> u8 \<Rightarrow> u32" where
  "pix_index state y x =
     (let width = (ucast (width state) :: u8)
      in (virtual_y state y div 8) * ucast width
         + word_of_int ((uint x + sint (x_offset state) + uint width) smod uint width))"

definition pixel_value :: "sh1107_state \<Rightarrow> u8 \<Rightarrow> u8 \<Rightarrow> u32 option" where
  "pixel_value state y x =
     (if unat (pix_index state y x) < PIXELS_SIZE then
        (let pixValue =
               (if (ucast (pixels state (unat (pix_index state y x))) :: u32)
                     AND push_bit (unat (virtual_y state y mod 8)) 1 \<noteq> 0
                then \<not> invert state else invert state)
         in Some (if pixValue \<and> display_on state then 0xffffffff else 0))
      else None)"

text \<open>
  \<^verbatim>\<open>data_offset = (y * width + x) * 4\<close>: \<^verbatim>\<open>int\<close> arithmetic on three promoted bytes, which
  cannot overflow.
\<close>

definition data_offset :: "sh1107_state \<Rightarrow> u8 \<Rightarrow> u8 \<Rightarrow> nat" where
  "data_offset state y x = (unat y * unat (ucast (width state) :: u8) + unat x) * 4"

text \<open>
  The two \<^verbatim>\<open>for\<close> loops of \<^verbatim>\<open>sh1107_update_buffer\<close>, on \<^verbatim>\<open>uint8_t\<close> counters, each passing
  on the content of the pixel sink.
\<close>

function update_buffer_row :: "sh1107_state \<Rightarrow> u8 \<Rightarrow> u8 \<Rightarrow> (nat \<Rightarrow> u8) \<Rightarrow> (nat \<Rightarrow> u8) option" where
  "update_buffer_row state y x buf =
     (if x < (ucast (width state) :: u8) then
        (case pixel_value state y x of
           None \<Rightarrow> None
         | Some pixel \<Rightarrow>
             update_buffer_row state y (x + 1)
               (buffer_write buf (data_offset state y x) (word_bytes pixel)))
      else Some buf)"
  by pat_completeness auto
termination
proof (relation "measure (\<lambda>(state, y, x, buf). 256 - unat x)")
  show "wf (measure (\<lambda>(state, y, x, buf). 256 - unat x))"
    by simp
next
  fix state :: sh1107_state and y x :: u8 and buf :: "nat \<Rightarrow> u8" and pixel :: u32
  assume lt: "x < ucast (width state)"
  have "unat x < unat (ucast (width state) :: u8)"
    using lt by (simp add: word_less_nat_alt)
  moreover have "unat (ucast (width state) :: u8) < 256"
    using unsigned_less [of "ucast (width state) :: u8", where ?'a = nat] by simp
  ultimately have "unat x < 255"
    by arith
  then have "unat (x + 1) = unat x + 1"
    by (simp add: unat_word_ariths)
  then show "((state, y, x + 1, buffer_write buf (data_offset state y x) (word_bytes pixel)),
              (state, y, x, buf)) \<in> measure (\<lambda>(state, y, x, buf). 256 - unat x)"
    using \<open>unat x < 255\<close> by simp
qed

declare update_buffer_row.simps [simp del]

function update_buffer_rows :: "sh1107_state \<Rightarrow> u8 \<Rightarrow> (nat \<Rightarrow> u8) \<Rightarrow> (nat \<Rightarrow> u8) option" where
  "update_buffer_rows state y buf =
     (if y < (ucast (height state) :: u8) then
        (case update_buffer_row state y 0 buf of
           None \<Rightarrow> None
         | Some buf' \<Rightarrow> update_buffer_rows state (y + 1) buf')
      else Some buf)"
  by pat_completeness auto
termination
proof (relation "measure (\<lambda>(state, y, buf). 256 - unat y)")
  show "wf (measure (\<lambda>(state, y, buf). 256 - unat y))"
    by simp
next
  fix state :: sh1107_state and y :: u8 and buf buf' :: "nat \<Rightarrow> u8"
  assume lt: "y < ucast (height state)"
  have "unat y < unat (ucast (height state) :: u8)"
    using lt by (simp add: word_less_nat_alt)
  moreover have "unat (ucast (height state) :: u8) < 256"
    using unsigned_less [of "ucast (height state) :: u8", where ?'a = nat] by simp
  ultimately have "unat y < 255"
    by arith
  then have "unat (y + 1) = unat y + 1"
    by (simp add: unat_word_ariths)
  then show "((state, y + 1, buf'), (state, y, buf)) \<in> measure (\<lambda>(state, y, buf). 256 - unat y)"
    using \<open>unat y < 255\<close> by simp
qed

declare update_buffer_rows.simps [simp del]

definition sh1107_update_buffer :: "sh1107_state \<Rightarrow> sh1107_state option" where
  "sh1107_update_buffer state =
     (case update_buffer_rows state 0 (framebuffer state) of
        None \<Rightarrow> None
      | Some buf \<Rightarrow> Some (state\<lparr>framebuffer := buf, updated := False\<rparr>))"

section \<open>Byte receiver and command assembler\<close>

text \<open>\<^verbatim>\<open>sh1107_i2c_connect\<close> and \<^verbatim>\<open>sh1107_i2c_read\<close>.\<close>

definition sh1107_i2c_connect :: "sh1107_state \<Rightarrow> bool \<times> sh1107_state" where
  "sh1107_i2c_connect state = (True, state\<lparr>control_byte := True\<rparr>)"

definition sh1107_i2c_read :: "sh1107_state \<Rightarrow> u8" where
  "sh1107_i2c_read state = 0xff"

text \<open>
  \<^verbatim>\<open>sh1107_i2c_write\<close>. \<open>end_of_byte\<close> is its last \<^verbatim>\<open>if\<close>, reached after a completed
  command and after a data byte. The store into \<^verbatim>\<open>current_command\<close> and the table read
  are unchecked in the source; both are \<open>None\<close> here when out of bounds.
  \<^verbatim>\<open>1 + multi_byte_commands[value]\<close> is truncated to \<^verbatim>\<open>uint8_t\<close> by the assignment.
\<close>

definition end_of_byte :: "sh1107_state \<Rightarrow> sh1107_state" where
  "end_of_byte state = (if \<not> continuous_mode state then state\<lparr>control_byte := True\<rparr> else state)"

definition sh1107_i2c_write :: "sh1107_state \<Rightarrow> u8 \<Rightarrow> (bool \<times> sh1107_state) option" where
  "sh1107_i2c_write state v =
     (if control_byte state then
        Some (True, state\<lparr>command_mode := (v AND SH1107_CONTROL_DC = 0),
                          continuous_mode := (v AND SH1107_CONTROL_CO = 0),
                          control_byte := False\<rparr>)
      else if command_mode state then
        (if unat (current_command_index state) < COMMAND_SIZE then
           (let s1 = state\<lparr>current_command :=
                             (current_command state)(unat (current_command_index state) := v)\<rparr>
            in case (if current_command_index s1 = 0 then
                       (case multi_byte_commands_at v of
                          None \<Rightarrow> None
                        | Some n \<Rightarrow> Some (s1\<lparr>current_command_length := 1 + n\<rparr>))
                     else Some s1) of
                 None \<Rightarrow> None
               | Some s2 \<Rightarrow>
                   (let s3 = s2\<lparr>current_command_index := current_command_index s2 + 1\<rparr>
                    in if current_command_index s3 < current_command_length s3
                       then Some (True, s3)
                       else Some (True, end_of_byte (sh1107_process_command s3))))
         else None)
      else
        (case sh1107_process_data state v of
           None \<Rightarrow> None
         | Some s1 \<Rightarrow> Some (True, end_of_byte s1)))"

section \<open>The chip as driven by its host\<close>

text \<open>
  The host calls the chip back, one event at a time: a bus connect, a bus write, a bus
  read, or the expiry of the update timer, which runs \<^verbatim>\<open>sh1107_update_buffer\<close> once when
  the timer had been started.
\<close>

datatype event = I2C_Connect | I2C_Write u8 | I2C_Read | Timer_Fire

definition timer_fire :: "sh1107_state \<Rightarrow> sh1107_state option" where
  "timer_fire state =
     (if timer_armed state then sh1107_update_buffer (state\<lparr>timer_armed := False\<rparr>)
      else Some state)"

fun step :: "sh1107_state \<Rightarrow> event \<Rightarrow> sh1107_state option" where
  "step state I2C_Connect = Some (snd (sh1107_i2c_connect state))"
| "step state (I2C_Write v) = map_option snd (sh1107_i2c_write state v)"
| "step state I2C_Read = Some state"
| "step state Timer_Fire = timer_fire state"

fun run :: "sh1107_state \<Rightarrow> event list \<Rightarrow> sh1107_state option" where
  "run state [] = Some state"
| "run state (e # es) = (case step state e of None \<Rightarrow> None | Some s1 \<Rightarrow> run s1 es)"

section \<open>The rendering transform as the specification words it\<close>

text \<open>
  The transform of the specification, on mathematical integers, for the output coordinate
  \<open>(x, y)\<close>: \<open>scroll_y = y + start_line\<close>;
  \<open>virtual_y = (reverse_rows ? height - 1 - scroll_y : scroll_y) mod width\<close>;
  \<open>source_index = (virtual_y / 8) * width + ((x + x_offset) mod width)\<close>; the bit
  \<open>virtual_y mod 8\<close> of that cell, exclusive-or \<open>invert\<close>, and \<open>display_on\<close>, as a fully
  lit or fully dark 4-byte value. \<open>mod\<close> is the remainder of floored division, so it is
  never negative.
\<close>

definition spec_virtual_y :: "sh1107_state \<Rightarrow> nat \<Rightarrow> int" where
  "spec_virtual_y state y =
     (let scroll_y = int y + uint (start_line state)
      in (if reverse_rows state then uint (height state) - 1 - scroll_y else scroll_y)
         mod uint (width state))"

definition spec_source_index :: "sh1107_state \<Rightarrow> nat \<Rightarrow> nat \<Rightarrow> int" where
  "spec_source_index state x y =
     (spec_virtual_y state y div 8) * uint (width state)
     + ((int x + sint (x_offset state)) mod uint (width state))"

definition spec_output_pixel :: "sh1107_state \<Rightarrow> nat \<Rightarrow> nat \<Rightarrow> u32" where
  "spec_output_pixel state x y =
     (let b = bit (pixels state (nat (spec_source_index state x y)))
                  (nat (spec_virtual_y state y mod 8));
          lit = (b \<noteq> invert state)
      in if lit \<and> display_on state then 0xffffffff else 0)"

text \<open>
  The byte at offset \<open>a\<close> of the frame the specification describes: pixel \<open>a div 4\<close>, in
  row-major order, one 4-byte value each.
\<close>

definition spec_frame_byte :: "sh1107_state \<Rightarrow> nat \<Rightarrow> u8" where
  "spec_frame_byte state a =
     (let w = unat (width state)
      in word_bytes (spec_output_pixel state ((a div 4) mod w) ((a div 4) div w)) ! (a mod 4))"

text \<open>
  The cell the Data Writer targets, as the specification words it: effective column =
  \<open>active_column\<close>, or \<open>width - 1 - active_column\<close> when \<open>segment_remap\<close> is set; target
  cell = \<open>active_page * width + effective_column\<close>.
\<close>

definition spec_target_cell :: "sh1107_state \<Rightarrow> nat" where
  "spec_target_cell state =
     (let effective_column =
            (if segment_remap state then unat (width state) - 1 - unat (active_column state)
             else unat (active_column state))
      in unat (active_page state) * unat (width state) + effective_column)"

section \<open>Requests for a render, as seen by the host\<close>

text \<open>
  What one call of \<^verbatim>\<open>sh1107_schedule_update\<close> does to a state in which nothing else touches
  the pending flag and the timer: the flag is set afterwards, and the timer has been
  started once more exactly when the flag was clear before. \<open>no_trigger\<close> is the absence
  of such a call.
\<close>

definition trigger_requested :: "sh1107_state \<Rightarrow> sh1107_state \<Rightarrow> bool" where
  "trigger_requested before after =
     (updated after
      \<and> timer_log after =
          (if updated before then timer_log before else timer_log before @ [(16667, False)]))"

definition no_trigger :: "sh1107_state \<Rightarrow> sh1107_state \<Rightarrow> bool" where
  "no_trigger before after =
     (updated after = updated before \<and> timer_log after = timer_log before)"

text \<open>The case labels of the \<^verbatim>\<open>switch\<close> of \<^verbatim>\<open>sh1107_process_command\<close>.\<close>

definition switch_labels :: "u8 set" where
  "switch_labels =
     {CMD_SET_CONTRAST, CMD_DISPLAY_OFF, CMD_DISPLAY_ON, CMD_NORMAL_DISPLAY,
      CMD_INVERT_DISPLAY, CMD_NOP, CMD_SET_PAGE_ADDR_MODE, CMD_SET_VERTICAL_ADDR_MODE,
      CMD_SET_DISPLAY_CLOCK_DIV, CMD_SET_PRECHARGE, CMD_COM_SCAN_INC, CMD_COM_SCAN_DEC,
      CMD_SEG_REMAP_OFF, CMD_SEG_REMAP_ON, CMD_SET_DISP_START_LINE,
      CMD_SET_DISPLAY_OFFSET, CMD_SET_MULTIPLEX, CMD_SET_VCOM_DESELECT,
      CMD_SET_COM_PINS, CMD_DISPLAY_ALL_ON, CMD_DISPLAY_ALL_ON_RESUME}"

section \<open>Invariants\<close>

text \<open>
  The invariants as the specification words them: \<open>active_column \<in> [0, width)\<close>,
  \<open>active_page \<in> [0, 16)\<close>, \<open>command_index < expected_length \<le> 8\<close>.
\<close>

definition spec_invariants :: "sh1107_state \<Rightarrow> bool" where
  "spec_invariants state =
     (unat (active_column state) < unat (width state) \<and> unat (active_page state) < 16
      \<and> unat (current_command_index state) < unat (current_command_length state)
      \<and> unat (current_command_length state) \<le> 8)"

text \<open>
  The same with the third weakened: the command index is 0, or it is below an expected
  length of at most 8.
\<close>

definition cursor_invariants :: "sh1107_state \<Rightarrow> bool" where
  "cursor_invariants state =
     (unat (active_column state) < unat (width state) \<and> unat (active_page state) < 16
      \<and> (current_command_index state = 0
          \<or> unat (current_command_index state) < unat (current_command_length state)
            \<and> unat (current_command_length state) \<le> 8))"

text \<open>
  The one event on which the model of \<^verbatim>\<open>sh1107_i2c_write\<close> has no result: the first byte of
  a command, above the last index \<open>0xdc\<close> of \<^verbatim>\<open>multi_byte_commands\<close>.
\<close>

definition table_overrun :: "sh1107_state \<Rightarrow> event \<Rightarrow> bool" where
  "table_overrun state e =
     (case e of
        I2C_Write v \<Rightarrow>
          \<not> control_byte state \<and> command_mode state \<and> current_command_index state = 0
          \<and> CMD_SET_DISP_START_LINE < v
      | _ \<Rightarrow> False)"

text \<open>
  The invariant that every event preserves: the geometry \<^verbatim>\<open>sh1107_reset\<close> assigns, the
  cursor inside it, and a command buffer that is empty or holds the opcode of a two-byte
  command.
\<close>

definition inductive_invariant :: "sh1107_state \<Rightarrow> bool" where
  "inductive_invariant state =
     (width state = 128 \<and> height state = 128
      \<and> unat (active_column state) < 128 \<and> unat (active_page state) < 16
      \<and> (current_command_index state = 0
          \<or> current_command_index state = 1 \<and> current_command_length state = 2))"

section \<open>Sample inputs\<close>

text \<open>
  Zero-filled memory, as \<^verbatim>\<open>malloc\<close> may return it, and the chip constructed on it with a
  pixel sink of 128 by 128 pixels; then that chip with the display on and the first cell of
  pixel memory filled; with scrolling and reversed rows; with the cursor in the last cell
  of vertical mode under segment remap; with the display on and a completed one-byte
  command in the command buffer; with page 5 selected, reversed rows and the opcode
  \<open>0xc0\<close> in the command buffer; with the display on and inverted; and after a connect
  and the control byte \<open>0x00\<close>, which selects a continuous stream of commands.
\<close>

definition zeroed_memory :: sh1107_state where
  "zeroed_memory =
     \<lparr>width = 0, height = 0, x_offset = 0, pixels = (\<lambda>i. 0), display_on = False,
      updated = False, contrast = 0, invert = False, reverse_rows = False,
      segment_remap = False, clock_divider = 0, multiplex_ratio = 0, phase1 = 0, phase2 = 0,
      active_column = 0, active_page = 0, memory_mode = 0, start_line = 0,
      control_byte = False, continuous_mode = False, command_mode = False,
      current_command_index = 0, current_command_length = 0, current_command = (\<lambda>i. 0),
      framebuffer = (\<lambda>i. 0), timer_armed = False, timer_log = [], printed = []\<rparr>"

definition lit_cell_chip :: sh1107_state where
  "lit_cell_chip =
     (chip_init zeroed_memory 128 128)\<lparr>display_on := True, pixels := (\<lambda>i. if i = 0 then 0xff else 0)\<rparr>"

definition scrolled_chip :: sh1107_state where
  "scrolled_chip = (chip_init zeroed_memory 128 128)\<lparr>start_line := 200, reverse_rows := True\<rparr>"

definition remap_corner_chip :: sh1107_state where
  "remap_corner_chip =
     (chip_init zeroed_memory 128 128)
       \<lparr>segment_remap := True, memory_mode := CMD_SET_VERTICAL_ADDR_MODE,
        active_page := 15, active_column := 127\<rparr>"

definition chip_with_command :: "u8 \<Rightarrow> sh1107_state" where
  "chip_with_command c =
     (chip_init zeroed_memory 128 128)\<lparr>display_on := True, current_command := (\<lambda>i. 0)(0 := c)\<rparr>"

definition page5_scan_chip :: sh1107_state where
  "page5_scan_chip = (chip_with_command 0xc0)\<lparr>active_page := 5, reverse_rows := True\<rparr>"

definition inverted_chip :: sh1107_state where
  "inverted_chip = (chip_init zeroed_memory 128 128)\<lparr>invert := True, display_on := True\<rparr>"

definition command_stream_chip :: sh1107_state where
  "command_stream_chip =
     (chip_init zeroed_memory 128 128)
       \<lparr>control_byte := False, continuous_mode := True, command_mode := True\<rparr>"

section \<open>The parameter-count table\<close>

lemma u8_eq_numeral: "(v = (numeral n :: u8)) = (unat v = unat (numeral n :: u8))"
  by (simp only: word_unat_eq_iff)

lemma length_multi_byte_commands: "length multi_byte_commands = 221"
  by (simp add: multi_byte_commands_def)

lemma multi_byte_commands_at_in_bounds:
  "unat v < 221 \<Longrightarrow>
   multi_byte_commands_at v =
     Some (if v \<in> {0x81, 0xa8, 0xad, 0xd3, 0xda, 0xd5, 0xd9, 0xdb, 0xdc} then 1 else 0)"
  apply (simp add: multi_byte_commands_at_def length_multi_byte_commands)
  apply (simp add: multi_byte_commands_def nth_list_update u8_eq_numeral)
  done

lemma multi_byte_commands_at_None: "(multi_byte_commands_at v = None) = (0xdc < v)"
  by (simp add: multi_byte_commands_at_def length_multi_byte_commands word_less_nat_alt not_less)

text \<open>
  C3. The claim: for each of the 256 values of the first byte of a command, the lookup of
  its parameter count is an in-bounds read, giving 0 for an opcode the table does not
  list. The table has 221 elements, and the no-op opcode \<open>0xe3\<close>, which the interpreter
  has a case for, indexes it past its end: sent as the first byte of a command on a newly
  constructed chip, it makes the write an out-of-bounds read.
\<close>

theorem nop_lookup_out_of_bounds:
  "length multi_byte_commands = 221
   \<and> multi_byte_commands_at CMD_NOP = None
   \<and> run (chip_init zeroed_memory 128 128) [I2C_Connect, I2C_Write 0x00, I2C_Write CMD_NOP] = None"
proof -
  have nop: "multi_byte_commands_at CMD_NOP = None"
    by (simp add: multi_byte_commands_at_None)
  have "run (chip_init zeroed_memory 128 128) [I2C_Connect, I2C_Write 0x00, I2C_Write CMD_NOP] = None"
    by (simp add: chip_init_def sh1107_reset_def zeroed_memory_def sh1107_i2c_connect_def
        sh1107_i2c_write_def nop)
  with nop show ?thesis
    by (simp add: length_multi_byte_commands)
qed

section \<open>The renderer\<close>

lemma unat_of_uint: "uint w = k \<Longrightarrow> unat w = nat k"
  using nat_uint_eq [of w] by simp

lemma scroll_y_uint: "uint (scroll_y state y) = uint y + uint (start_line state)"
  unfolding scroll_y_def using uint_lt2p [of y] uint_lt2p [of "start_line state"]
  by (simp add: uint_word_ariths uint_up_ucast is_up)

lemma virtual_y_uint:
  assumes w: "width state = 128" and h: "height state = 128"
  shows "uint (virtual_y state y) = spec_virtual_y state (unat y)"
proof -
  define sy where "sy = scroll_y state y"
  have s: "uint sy = int (unat y) + uint (start_line state)"
    by (simp add: sy_def scroll_y_uint)
  have "uint ((127 :: u32) - sy) = (127 - uint sy) mod 2 ^ 32"
    by (simp add: uint_word_ariths)
  moreover have "((127 - uint sy) mod 2 ^ 32) mod 128 = (127 - uint sy) mod 128"
    by (rule mod_mod_cancel) simp
  ultimately have r: "uint (((127 :: u32) - sy) mod 128) = (127 - uint sy) mod 128"
    by (simp add: uint_mod)
  have n: "uint (sy mod 128) = uint sy mod 128"
    by (simp add: uint_mod)
  have "virtual_y state y = (if reverse_rows state then (127 - sy) mod 128 else sy mod 128)"
    by (simp add: virtual_y_def w h sy_def)
  then show ?thesis
    by (simp add: r n s spec_virtual_y_def w h)
qed

lemma virtual_y_range:
  assumes w: "width state = 128" and h: "height state = 128"
  shows "0 \<le> uint (virtual_y state y) \<and> uint (virtual_y state y) < 128"
  by (simp add: virtual_y_uint [OF w h] spec_virtual_y_def w Let_def)

lemma smod_nonneg:
  fixes k :: int
  assumes "0 \<le> k"
  shows "k smod 128 = k mod 128"
proof (cases "k = 0")
  case True
  then show ?thesis by simp
next
  case False
  with assms have "0 < k" by simp
  then show ?thesis by (simp add: smod_int_alt_def)
qed

lemma column_smod:
  fixes x xo :: u8
  shows "(uint x + sint xo + 128) smod 128 = (uint x + sint xo) mod 128"
proof -
  have "- 128 \<le> sint xo"
    using sint_ge [of xo] by simp
  moreover have "0 \<le> uint x"
    by simp
  ultimately have nn: "0 \<le> uint x + sint xo + 128"
    by arith
  have "(uint x + sint xo + 128) smod 128 = (uint x + sint xo + 128) mod 128"
    using nn by (rule smod_nonneg)
  then show ?thesis
    by simp
qed

lemma pix_index_uint:
  assumes w: "width state = 128" and h: "height state = 128"
  shows "uint (pix_index state y x) = spec_source_index state (unat x) (unat y)
         \<and> unat (pix_index state y x) < 2048"
proof -
  define v where "v = virtual_y state y"
  define m :: int where "m = (uint x + sint (x_offset state)) mod 128"
  have vr: "0 \<le> uint v" "uint v < 128"
    using virtual_y_range [OF w h, of y] by (simp_all add: v_def)
  have mr: "0 \<le> m" "m < 128"
    by (simp_all add: m_def)
  have d: "uint (v div 8) = uint v div 8"
    by (simp add: uint_div)
  have dr: "0 \<le> uint v div 8" "uint v div 8 < 16"
    using vr by arith+
  have um: "uint (word_of_int m :: u32) = m"
    using mr by (simp add: uint_word_of_int)
  have pi: "pix_index state y x = (v div 8) * 128 + word_of_int m"
    by (simp add: pix_index_def w v_def m_def column_smod)
  have "uint ((v div 8) * 128 + word_of_int m) = ((uint v div 8) * 128 + m) mod 2 ^ 32"
    by (simp add: uint_word_ariths d um mod_simps)
  also have "\<dots> = (uint v div 8) * 128 + m"
    using dr mr by simp
  finally have ui0: "uint (pix_index state y x) = (uint v div 8) * 128 + m"
    by (simp add: pi)
  have "uint v = spec_virtual_y state (unat y)"
    by (simp add: v_def virtual_y_uint [OF w h])
  then have "uint (pix_index state y x) = spec_source_index state (unat x) (unat y)"
    by (simp add: ui0 spec_source_index_def m_def w)
  moreover have "unat (pix_index state y x) < 2048"
    unfolding unat_of_uint [OF ui0] using dr mr by arith
  ultimately show ?thesis
    by simp
qed

lemma bit_test:
  fixes b :: u8
  assumes "n < 8"
  shows "((ucast b :: u32) AND push_bit n 1 \<noteq> 0) = bit b n"
proof -
  have "((ucast b :: u32) AND 2 ^ n = 0) = (\<not> bit (ucast b :: u32) n)"
    by (rule and_exp_eq_0_iff_not_bit)
  moreover have "bit (ucast b :: u32) n = bit b n"
    using assms by (simp add: bit_ucast_iff)
  ultimately show ?thesis
    by (simp add: push_bit_eq_mult)
qed

lemma pixel_value_eq:
  assumes w: "width state = 128" and h: "height state = 128"
  shows "pixel_value state y x = Some (spec_output_pixel state (unat x) (unat y))"
proof -
  define v where "v = virtual_y state y"
  define i where "i = pix_index state y x"
  have uv: "uint v = spec_virtual_y state (unat y)"
    by (simp add: v_def virtual_y_uint [OF w h])
  have vr: "0 \<le> uint v" "uint v < 128"
    using virtual_y_range [OF w h, of y] by (simp_all add: v_def)
  have ir: "unat i < 2048"
    using pix_index_uint [OF w h, of y x] by (simp add: i_def)
  have "uint i = spec_source_index state (unat x) (unat y)"
    using pix_index_uint [OF w h, of y x] by (simp add: i_def)
  then have ni: "unat i = nat (spec_source_index state (unat x) (unat y))"
    by (rule unat_of_uint)
  have "uint (v mod 8) = spec_virtual_y state (unat y) mod 8"
    by (simp add: uint_mod uv)
  then have v8: "unat (v mod 8) = nat (spec_virtual_y state (unat y) mod 8)"
    by (rule unat_of_uint)
  have v8r: "unat (v mod 8) < 8"
    unfolding v8 by simp
  have bt: "((ucast (pixels state (unat i)) :: u32) AND push_bit (unat (v mod 8)) 1 \<noteq> 0)
            = bit (pixels state (unat i)) (unat (v mod 8))"
    using v8r by (rule bit_test)
  have "pixel_value state y x =
          Some (if (if bit (pixels state (unat i)) (unat (v mod 8)) then \<not> invert state
                    else invert state) \<and> display_on state
                then 0xffffffff else 0)"
    unfolding pixel_value_def Let_def v_def [symmetric] i_def [symmetric] bt
    using ir by simp
  then show ?thesis
    unfolding ni v8 by (simp add: spec_output_pixel_def Let_def)
qed


lemma quad_div: "k < 4 \<Longrightarrow> (n * 4 + k) div 4 = (n :: nat)"
  by simp

lemma quad_mod: "k < 4 \<Longrightarrow> (n * 4 + k) mod 4 = (k :: nat)"
  by simp

lemma buffer_write_word_bytes:
  "buffer_write buf off (word_bytes p) =
     (\<lambda>a. if off \<le> a \<and> a < off + 4 then word_bytes p ! (a - off) else buf a)"
proof
  fix a
  consider "a < off" | "a = off" | "a = off + 1" | "a = off + 2" | "a = off + 3" | "off + 4 \<le> a"
    by arith
  then show "buffer_write buf off (word_bytes p) a =
               (if off \<le> a \<and> a < off + 4 then word_bytes p ! (a - off) else buf a)"
    by cases (simp_all add: word_bytes_def)
qed

lemma u8_succ:
  fixes x :: u8
  assumes "unat x < 128"
  shows "unat (x + 1) = unat x + 1"
  using assms by (simp add: unat_word_ariths)

lemma update_buffer_row_eq:
  assumes w: "width state = 128" and h: "height state = 128"
  shows "unat x \<le> 128 \<Longrightarrow>
         update_buffer_row state y x buf =
           Some (\<lambda>a. if a \<in> {(unat y * 128 + unat x) * 4 ..< (unat y * 128 + 128) * 4}
                      then spec_frame_byte state a else buf a)"
proof (induction "128 - unat x" arbitrary: x buf)
  case 0
  then have e: "unat x = 128"
    by simp
  then have "\<not> x < 128"
    by (simp add: word_less_nat_alt)
  then have "update_buffer_row state y x buf = Some buf"
    by (subst update_buffer_row.simps) (simp add: w)
  moreover have "{(unat y * 128 + unat x) * 4 ..< (unat y * 128 + 128) * 4} = {}"
    unfolding e by simp
  ultimately show ?case
    by simp
next
  case (Suc n)
  then have lt: "unat x < 128"
    by simp
  then have xl: "x < 128"
    by (simp add: word_less_nat_alt)
  have sx: "unat (x + 1) = unat x + 1"
    using lt by (rule u8_succ)
  define off where "off = (unat y * 128 + unat x) * 4"
  define e where "e = (unat y * 128 + 128) * 4"
  define p where "p = spec_output_pixel state (unat x) (unat y)"
  define buf1 where "buf1 = buffer_write buf off (word_bytes p)"
  have oe: "off + 4 \<le> e"
    using lt unfolding off_def e_def by arith
  have o1: "(unat y * 128 + unat (x + 1)) * 4 = off + 4"
    unfolding sx off_def by simp
  have st: "update_buffer_row state y x buf = update_buffer_row state y (x + 1) buf1"
    by (subst update_buffer_row.simps)
       (simp add: w xl pixel_value_eq [OF w h] data_offset_def off_def p_def buf1_def)
  have ih: "update_buffer_row state y (x + 1) buf1 =
              Some (\<lambda>a. if a \<in> {(unat y * 128 + unat (x + 1)) * 4 ..< (unat y * 128 + 128) * 4}
                         then spec_frame_byte state a else buf1 a)"
    using Suc.hyps(2) lt sx by (intro Suc.hyps(1)) simp_all
  have fb: "spec_frame_byte state a = word_bytes p ! (a - off)" if "off \<le> a" "a < off + 4" for a
  proof -
    define k where "k = a - off"
    have k: "k < 4" and a: "a = (unat y * 128 + unat x) * 4 + k"
      using that unfolding k_def off_def by simp_all
    have "a div 4 = unat y * 128 + unat x"
      unfolding a using k by (rule quad_div)
    moreover have "a mod 4 = k"
      unfolding a using k by (rule quad_mod)
    ultimately show ?thesis
      using lt by (simp add: spec_frame_byte_def w p_def k_def)
  qed
  have "(if a \<in> {off + 4 ..< e} then spec_frame_byte state a else buf1 a)
        = (if a \<in> {off ..< e} then spec_frame_byte state a else buf a)" for a
  proof -
    consider "a < off" | "off \<le> a" "a < off + 4" | "off + 4 \<le> a"
      by arith
    then show ?thesis
    proof cases
      case 1
      then show ?thesis
        by (simp add: buf1_def buffer_write_word_bytes)
    next
      case 2
      then have "a < e"
        using oe by arith
      with 2 show ?thesis
        by (simp add: buf1_def buffer_write_word_bytes fb)
    next
      case 3
      then show ?thesis
        by (simp add: buf1_def buffer_write_word_bytes)
    qed
  qed
  then have "(\<lambda>a. if a \<in> {off + 4 ..< e} then spec_frame_byte state a else buf1 a)
             = (\<lambda>a. if a \<in> {off ..< e} then spec_frame_byte state a else buf a)"
    by (rule ext)
  then show ?case
    unfolding st ih o1 off_def [symmetric] e_def [symmetric] by simp
qed


lemma update_buffer_rows_eq:
  assumes w: "width state = 128" and h: "height state = 128"
  shows "unat y \<le> 128 \<Longrightarrow>
         update_buffer_rows state y buf =
           Some (\<lambda>a. if a \<in> {unat y * 512 ..< 65536} then spec_frame_byte state a else buf a)"
proof (induction "128 - unat y" arbitrary: y buf)
  case 0
  then have e: "unat y = 128"
    by simp
  then have "\<not> y < 128"
    by (simp add: word_less_nat_alt)
  then have "update_buffer_rows state y buf = Some buf"
    by (subst update_buffer_rows.simps) (simp add: h)
  moreover have "{unat y * 512 ..< 65536} = {}"
    unfolding e by simp
  ultimately show ?case
    by simp
next
  case (Suc n)
  then have lt: "unat y < 128"
    by simp
  then have yl: "y < 128"
    by (simp add: word_less_nat_alt)
  have sy: "unat (y + 1) = unat y + 1"
    using lt by (rule u8_succ)
  define off where "off = unat y * 512"
  define buf1 where
    "buf1 = (\<lambda>a. if a \<in> {off ..< off + 512} then spec_frame_byte state a else buf a)"
  have row: "update_buffer_row state y 0 buf = Some buf1"
    using update_buffer_row_eq [OF w h, of 0 y buf]
    by (simp add: buf1_def off_def algebra_simps)
  have st: "update_buffer_rows state y buf = update_buffer_rows state (y + 1) buf1"
    by (subst update_buffer_rows.simps) (simp add: h yl row)
  have ih: "update_buffer_rows state (y + 1) buf1 =
              Some (\<lambda>a. if a \<in> {unat (y + 1) * 512 ..< 65536}
                         then spec_frame_byte state a else buf1 a)"
    using Suc.hyps(2) lt sy by (intro Suc.hyps(1)) simp_all
  have o1: "unat (y + 1) * 512 = off + 512"
    unfolding sy off_def by simp
  have oe: "off + 512 \<le> 65536"
    using lt unfolding off_def by arith
  have "(if a \<in> {off + 512 ..< 65536} then spec_frame_byte state a else buf1 a)
        = (if a \<in> {off ..< 65536} then spec_frame_byte state a else buf a)" for a
  proof -
    consider "a < off" | "off \<le> a" "a < off + 512" | "off + 512 \<le> a"
      by arith
    then show ?thesis
    proof cases
      case 1
      then show ?thesis
        by (simp add: buf1_def)
    next
      case 2
      then have "a < 65536"
        using oe by arith
      with 2 show ?thesis
        by (simp add: buf1_def)
    next
      case 3
      then show ?thesis
        by (simp add: buf1_def)
    qed
  qed
  then have "(\<lambda>a. if a \<in> {off + 512 ..< 65536} then spec_frame_byte state a else buf1 a)
             = (\<lambda>a. if a \<in> {off ..< 65536} then spec_frame_byte state a else buf a)"
    by (rule ext)
  then show ?case
    unfolding st ih o1 off_def [symmetric] by simp
qed

lemma sh1107_update_buffer_eq:
  assumes w: "width state = 128" and h: "height state = 128"
  shows "sh1107_update_buffer state =
           Some (state\<lparr>framebuffer :=
                         (\<lambda>a. if a < 65536 then spec_frame_byte state a else framebuffer state a),
                       updated := False\<rparr>)"
  using update_buffer_rows_eq [OF w h, of 0 "framebuffer state"]
  by (simp add: sh1107_update_buffer_def)

text \<open>
  C10. With \<open>width = height = 128\<close>, every index into pixel memory that the Renderer
  computes is below 2048, for every start line, row direction, column offset and
  coordinate, also when \<open>height - 1 - scroll_y\<close> wraps around.
\<close>

theorem pix_index_in_bounds:
  assumes "width state = 128" and "height state = 128"
  shows "unat (pix_index state y x) < PIXELS_SIZE"
  using pix_index_uint [OF assms] by simp

theorem pix_index_in_bounds_witness:
  "width scrolled_chip = 128 \<and> height scrolled_chip = 128
   \<and> x_offset scrolled_chip = 96
   \<and> scroll_y scrolled_chip 100 = 300
   \<and> unat (pix_index scrolled_chip 100 50) < PIXELS_SIZE"
  using pix_index_in_bounds [of scrolled_chip 100 50]
  by (simp add: scrolled_chip_def chip_init_def sh1107_reset_def scroll_y_def)

text \<open>
  C1. For every output coordinate \<open>(x, y)\<close> below 128, the Renderer returns, and the four
  bytes of the pixel sink at offset \<open>(y * width + x) * 4\<close> are then those of the value the
  specification's transform gives.
\<close>

theorem update_buffer_matches_spec:
  assumes "width state = 128" and "height state = 128" and "x < 128" and "y < 128"
  shows "\<exists>state'. sh1107_update_buffer state = Some state'
           \<and> (\<forall>k<4. framebuffer state' ((y * unat (width state) + x) * 4 + k)
                        = word_bytes (spec_output_pixel state x y) ! k)"
proof -
  define off where "off = (y * 128 + x) * 4"
  have r: "off + k < 65536" if "k < 4" for k
    using assms(3,4) that unfolding off_def by simp
  have d: "(off + k) div 4 = y * 128 + x" "(off + k) mod 4 = k" if "k < 4" for k
    unfolding off_def using that by (rule quad_div, rule quad_mod)
  have b: "spec_frame_byte state (off + k) = word_bytes (spec_output_pixel state x y) ! k"
    if "k < 4" for k
    using that assms(3,4) by (simp add: spec_frame_byte_def assms(1) d)
  define state' where
    "state' = state\<lparr>framebuffer :=
                       (\<lambda>a. if a < 65536 then spec_frame_byte state a else framebuffer state a),
                     updated := False\<rparr>"
  have u: "sh1107_update_buffer state = Some state'"
    unfolding state'_def by (rule sh1107_update_buffer_eq [OF assms(1,2)])
  have "framebuffer state' ((y * unat (width state) + x) * 4 + k)
          = word_bytes (spec_output_pixel state x y) ! k" if "k < 4" for k
  proof -
    have "(y * unat (width state) + x) * 4 + k = off + k"
      by (simp add: assms(1) off_def)
    moreover have "framebuffer state' (off + k) = spec_frame_byte state (off + k)"
      using r [OF that] by (simp add: state'_def)
    ultimately show ?thesis
      using b [OF that] by simp
  qed
  with u show ?thesis
    by blast
qed

theorem update_buffer_matches_spec_witness:
  "width lit_cell_chip = 128 \<and> height lit_cell_chip = 128 \<and> (32 :: nat) < 128 \<and> (3 :: nat) < 128
   \<and> spec_output_pixel lit_cell_chip 32 3 = 0xffffffff
   \<and> (\<exists>state'. sh1107_update_buffer lit_cell_chip = Some state'
          \<and> (\<forall>k<4. framebuffer state' ((3 * unat (width lit_cell_chip) + 32) * 4 + k)
                       = word_bytes 0xffffffff ! k))"
proof -
  have p: "spec_output_pixel lit_cell_chip 32 3 = 0xffffffff"
    by (simp add: spec_output_pixel_def spec_source_index_def spec_virtual_y_def
        lit_cell_chip_def chip_init_def sh1107_reset_def zeroed_memory_def)
  have w: "width lit_cell_chip = 128" and h: "height lit_cell_chip = 128"
    by (simp_all add: lit_cell_chip_def chip_init_def sh1107_reset_def)
  show ?thesis
    using update_buffer_matches_spec [OF w h, of 32 3] p w h by simp
qed

section \<open>The data writer\<close>

lemma schedule_update_fields [simp]:
  "pixels (sh1107_schedule_update s) = pixels s"
  "active_column (sh1107_schedule_update s) = active_column s"
  "active_page (sh1107_schedule_update s) = active_page s"
  "width (sh1107_schedule_update s) = width s"
  "height (sh1107_schedule_update s) = height s"
  "x_offset (sh1107_schedule_update s) = x_offset s"
  "display_on (sh1107_schedule_update s) = display_on s"
  "invert (sh1107_schedule_update s) = invert s"
  "reverse_rows (sh1107_schedule_update s) = reverse_rows s"
  "segment_remap (sh1107_schedule_update s) = segment_remap s"
  "start_line (sh1107_schedule_update s) = start_line s"
  "memory_mode (sh1107_schedule_update s) = memory_mode s"
  "framebuffer (sh1107_schedule_update s) = framebuffer s"
  "current_command (sh1107_schedule_update s) = current_command s"
  "current_command_index (sh1107_schedule_update s) = current_command_index s"
  "current_command_length (sh1107_schedule_update s) = current_command_length s"
  "control_byte (sh1107_schedule_update s) = control_byte s"
  "continuous_mode (sh1107_schedule_update s) = continuous_mode s"
  "command_mode (sh1107_schedule_update s) = command_mode s"
  "printed (sh1107_schedule_update s) = printed s"
  "updated (sh1107_schedule_update s) = True"
  by (simp_all add: sh1107_schedule_update_def timer_start_def)

lemma unat_ucast_u8_u32: "unat (ucast (c :: u8) :: u32) = unat c"
proof -
  have "uint (ucast c :: u32) = uint c"
    by (rule uint_up_ucast) (simp add: is_up)
  then have "nat (uint (ucast c :: u32)) = nat (uint c)"
    by simp
  then show ?thesis
    by (simp only: nat_uint_eq)
qed

lemma advance_column_fields [simp]:
  "pixels (advance_column s) = pixels s"
  "active_page (advance_column s) = active_page s"
  "width (advance_column s) = width s"
  by (simp_all add: advance_column_def Let_def)

lemma advance_column_eq:
  assumes wl: "unat (width state) \<le> 128"
    and cl: "unat (active_column state) < unat (width state)"
  shows "advance_column state =
           state\<lparr>active_column :=
                   (if unat (active_column state) + 1 = unat (width state) then 0
                    else active_column state + 1)\<rparr>"
proof -
  have c1: "unat (active_column state + 1) = unat (active_column state) + 1"
    using wl cl by (simp add: unat_word_ariths)
  have "((ucast (active_column state + 1) :: u32) \<ge> width state)
          = (unat (width state) \<le> unat (active_column state) + 1)"
    by (simp add: word_le_nat_alt unat_ucast_u8_u32 c1)
  also have "\<dots> = (unat (active_column state) + 1 = unat (width state))"
    using cl by auto
  finally show ?thesis
    by (simp add: advance_column_def Let_def)
qed

lemma advance_column_unat:
  assumes wl: "unat (width state) \<le> 128"
    and cl: "unat (active_column state) < unat (width state)"
  shows "unat (active_column (advance_column state))
           = (unat (active_column state) + 1) mod unat (width state)"
proof (cases "unat (active_column state) + 1 = unat (width state)")
  case True
  then show ?thesis
    by (simp add: advance_column_eq [OF wl cl])
next
  case False
  then have "unat (active_column state) + 1 < unat (width state)"
    using cl by simp
  moreover have "unat (active_column state + 1) = unat (active_column state) + 1"
    using wl cl by (simp add: unat_word_ariths)
  ultimately show ?thesis
    using False by (simp add: advance_column_eq [OF wl cl])
qed


lemma process_data_target:
  assumes wl: "unat (width state) \<le> 128"
    and cl: "unat (active_column state) < unat (width state)"
    and pl: "unat (active_page state) < 16"
  shows "unat (ucast (active_page state) * width state
               + (if \<not> segment_remap state then ucast (active_column state)
                  else width state - 1 - ucast (active_column state)) :: u32)
           = unat (active_page state) * unat (width state)
             + (if segment_remap state then unat (width state) - 1 - unat (active_column state)
                else unat (active_column state))"
    (is "unat (?p * ?w + ?col) = _")
proof -
  define W where "W = unat (width state)"
  define c where "c = unat (active_column state)"
  define p where "p = unat (active_page state)"
  have up: "unat ?p = p" and uc: "unat (ucast (active_column state) :: u32) = c"
    by (simp_all add: p_def c_def unat_ucast_u8_u32)
  have pw: "p * W \<le> 15 * 128"
    using wl pl unfolding p_def W_def by (intro mult_le_mono) simp_all
  have m: "unat (?p * ?w) = p * W"
    using pw by (simp add: unat_word_ariths up W_def [symmetric])
  have one: "unat (1 + ucast (active_column state) :: u32) = 1 + c"
    using cl wl by (simp add: unat_word_ariths uc c_def [symmetric] W_def [symmetric])
  have "(1 + ucast (active_column state) :: u32) \<le> ?w"
    using cl by (simp add: word_le_nat_alt one c_def W_def)
  then have "unat (?w - (1 + ucast (active_column state))) = W - (1 + c)"
    by (simp add: unat_sub one W_def)
  then have x: "unat (?w - (1 + ucast (active_column state))) = W - 1 - c"
    by simp
  have eq: "?w - 1 - ucast (active_column state) = ?w - (1 + ucast (active_column state))"
    by simp
  have r: "unat (?w - 1 - ucast (active_column state)) = W - 1 - c"
    by (simp only: eq x)
  have col: "unat ?col = (if segment_remap state then W - 1 - c else c)"
    by (simp add: r uc)
  have cw: "unat ?col < W"
    unfolding col using cl by (simp add: c_def W_def)
  have "unat (?p * ?w) + unat ?col < 2 ^ LENGTH(32)"
    unfolding m using pw cw wl unfolding W_def by simp
  then have "unat (?p * ?w + ?col) = unat (?p * ?w) + unat ?col"
    by (rule unat_add_lem [THEN iffD1])
  then have "unat (?p * ?w + ?col) = p * W + unat ?col"
    by (simp only: m)
  then show ?thesis
    unfolding col by (simp add: p_def W_def c_def)
qed


lemma process_data_result:
  assumes wl: "unat (width state) \<le> 128"
    and cl: "unat (active_column state) < unat (width state)"
    and pl: "unat (active_page state) < 16"
  shows "\<exists>r. sh1107_process_data state v = Some (sh1107_schedule_update r)
           \<and> r\<lparr>pixels := pixels state, active_column := active_column state,
                 active_page := active_page state\<rparr> = state
           \<and> pixels r = (pixels state)(spec_target_cell state := v)
           \<and> (if memory_mode state = CMD_SET_PAGE_ADDR_MODE
              then unat (active_column r)
                     = (unat (active_column state) + 1) mod unat (width state)
                   \<and> active_page r = active_page state
              else if unat (active_page state) + 1 > 15
              then active_page r = 0
                   \<and> unat (active_column r)
                       = (unat (active_column state) + 1) mod unat (width state)
              else unat (active_page r) = unat (active_page state) + 1
                   \<and> active_column r = active_column state)"
proof -
  define t where "t = spec_target_cell state"
  define s1 where "s1 = state\<lparr>pixels := (pixels state)(t := v)\<rparr>"
  have tl: "t < 2048"
  proof -
    have "t < unat (active_page state) * unat (width state) + unat (width state)"
      unfolding t_def spec_target_cell_def Let_def using cl by simp
    also have "\<dots> = (unat (active_page state) + 1) * unat (width state)"
      by simp
    also have "\<dots> \<le> 16 * 128"
      using wl pl by (intro mult_le_mono) simp_all
    finally show ?thesis
      by simp
  qed
  have w1: "unat (width s1) \<le> 128" and c1: "unat (active_column s1) < unat (width s1)"
    using wl cl by (simp_all add: s1_def)
  have p1: "unat (active_page state + 1) = unat (active_page state) + 1"
    using pl by (simp add: unat_word_ariths)
  have ge: "(active_page state + 1 \<ge> 0x10) = (unat (active_page state) + 1 > 15)"
    by (auto simp: word_le_nat_alt p1)
  define s3 where "s3 = s1\<lparr>active_page := 0\<rparr>"
  have w3: "unat (width s3) \<le> 128" and c3: "unat (active_column s3) < unat (width s3)"
    using wl cl by (simp_all add: s3_def s1_def)
  have f1: "memory_mode s1 = memory_mode state" "active_page s1 = active_page state"
    by (simp_all add: s1_def)
  define r where
    "r = (if memory_mode state = CMD_SET_PAGE_ADDR_MODE then advance_column s1
          else if unat (active_page state) + 1 > 15 then advance_column s3
          else s1\<lparr>active_page := active_page state + 1\<rparr>)"
  have tt: "unat (ucast (active_page state) * width state
               + (if \<not> segment_remap state then ucast (active_column state)
                  else width state - 1 - ucast (active_column state)) :: u32) = t"
    unfolding process_data_target [OF wl cl pl] t_def spec_target_cell_def Let_def by simp
  have pd: "sh1107_process_data state v = Some (sh1107_schedule_update r)"
    unfolding sh1107_process_data_def Let_def tt r_def
    using tl by (simp add: s1_def [symmetric] s3_def ge f1)
  have px: "pixels r = (pixels state)(t := v)"
    by (simp add: r_def s1_def s3_def)
  have rest: "r\<lparr>pixels := pixels state, active_column := active_column state,
               active_page := active_page state\<rparr> = state"
    unfolding r_def advance_column_eq [OF w1 c1] advance_column_eq [OF w3 c3]
    by (simp add: s1_def s3_def)
  have a1: "unat (active_column (advance_column s1))
              = (unat (active_column state) + 1) mod unat (width state)"
    using advance_column_unat [OF w1 c1] by (simp add: s1_def)
  have a3: "unat (active_column (advance_column s3))
              = (unat (active_column state) + 1) mod unat (width state)"
    using advance_column_unat [OF w3 c3] by (simp add: s3_def s1_def)
  have cur: "if memory_mode state = CMD_SET_PAGE_ADDR_MODE
             then unat (active_column r)
                    = (unat (active_column state) + 1) mod unat (width state)
                  \<and> active_page r = active_page state
             else if unat (active_page state) + 1 > 15
             then active_page r = 0
                  \<and> unat (active_column r)
                      = (unat (active_column state) + 1) mod unat (width state)
             else unat (active_page r) = unat (active_page state) + 1
                  \<and> active_column r = active_column state"
    unfolding r_def using a1 a3 p1 by (simp add: s1_def s3_def)
  from pd rest px cur show ?thesis
    unfolding t_def by blast
qed

text \<open>
  C2. A data byte written with the cursor inside the display (\<open>active_column < width\<close>,
  \<open>active_page < 16\<close>, and a width of at most 128 columns, which the 2048 cells hold) is
  stored whole in the cell \<open>active_page * width + effective_column\<close>; then in page mode the
  column advances and wraps at \<open>width\<close> with the page unchanged, and in every other mode the
  page advances and, when it would exceed 15, returns to 0 while the column advances and
  wraps at \<open>width\<close>.
\<close>

theorem process_data_stores_and_advances:
  assumes wl: "unat (width state) \<le> 128"
    and cl: "unat (active_column state) < unat (width state)"
    and pl: "unat (active_page state) < 16"
  shows "\<exists>state'. sh1107_process_data state v = Some state'
           \<and> pixels state' = (pixels state)(spec_target_cell state := v)
           \<and> (if memory_mode state = CMD_SET_PAGE_ADDR_MODE
              then unat (active_column state')
                     = (unat (active_column state) + 1) mod unat (width state)
                   \<and> active_page state' = active_page state
              else if unat (active_page state) + 1 > 15
              then active_page state' = 0
                   \<and> unat (active_column state')
                       = (unat (active_column state) + 1) mod unat (width state)
              else unat (active_page state') = unat (active_page state) + 1
                   \<and> active_column state' = active_column state)"
proof -
  obtain r where r: "sh1107_process_data state v = Some (sh1107_schedule_update r)"
    "pixels r = (pixels state)(spec_target_cell state := v)"
    "if memory_mode state = CMD_SET_PAGE_ADDR_MODE
              then unat (active_column r)
                     = (unat (active_column state) + 1) mod unat (width state)
                   \<and> active_page r = active_page state
              else if unat (active_page state) + 1 > 15
              then active_page r = 0
                   \<and> unat (active_column r)
                       = (unat (active_column state) + 1) mod unat (width state)
              else unat (active_page r) = unat (active_page state) + 1
                   \<and> active_column r = active_column state"
    using process_data_result [OF wl cl pl, of v] by blast
  show ?thesis
    unfolding r(1) using r(2,3) by simp
qed

theorem process_data_stores_and_advances_witness:
  "unat (width remap_corner_chip) \<le> 128
   \<and> unat (active_column remap_corner_chip) < unat (width remap_corner_chip)
   \<and> unat (active_page remap_corner_chip) < 16
   \<and> spec_target_cell remap_corner_chip = 1920
   \<and> (\<exists>state'. sh1107_process_data remap_corner_chip 0xab = Some state'
         \<and> pixels state' 1920 = 0xab \<and> active_page state' = 0
         \<and> unat (active_column state') = 0)"
proof -
  have h: "unat (width remap_corner_chip) \<le> 128"
    "unat (active_column remap_corner_chip) < unat (width remap_corner_chip)"
    "unat (active_page remap_corner_chip) < 16"
    by (simp_all add: remap_corner_chip_def chip_init_def sh1107_reset_def)
  have t: "spec_target_cell remap_corner_chip = 1920"
    by (simp add: spec_target_cell_def remap_corner_chip_def chip_init_def sh1107_reset_def)
  have m: "memory_mode remap_corner_chip \<noteq> CMD_SET_PAGE_ADDR_MODE"
    "unat (active_page remap_corner_chip) + 1 > 15"
    "(unat (active_column remap_corner_chip) + 1) mod unat (width remap_corner_chip) = 0"
    by (simp_all add: remap_corner_chip_def chip_init_def sh1107_reset_def)
  show ?thesis
    using process_data_stores_and_advances [OF h, of "0xab"] h t m by auto
qed

section \<open>The command interpreter\<close>

lemma command_switch_label:
  "current_command state 0 = CMD_SET_CONTRAST \<Longrightarrow>
     command_switch state =
       (state\<lparr>contrast := current_command state 1\<rparr>, True)"
  "current_command state 0 = CMD_DISPLAY_OFF \<Longrightarrow>
     command_switch state =
       (sh1107_schedule_update (state\<lparr>display_on := False\<rparr>), False)"
  "current_command state 0 = CMD_DISPLAY_ON \<Longrightarrow>
     command_switch state =
       (sh1107_schedule_update (state\<lparr>display_on := True\<rparr>), False)"
  "current_command state 0 = CMD_NORMAL_DISPLAY \<Longrightarrow>
     command_switch state =
       (state\<lparr>invert := False\<rparr>, True)"
  "current_command state 0 = CMD_INVERT_DISPLAY \<Longrightarrow>
     command_switch state =
       (state\<lparr>invert := True\<rparr>, True)"
  "current_command state 0 = CMD_NOP \<Longrightarrow>
     command_switch state =
       (state, False)"
  "current_command state 0 = CMD_SET_PAGE_ADDR_MODE \<Longrightarrow>
     command_switch state =
       (state\<lparr>memory_mode := CMD_SET_PAGE_ADDR_MODE\<rparr>, False)"
  "current_command state 0 = CMD_SET_VERTICAL_ADDR_MODE \<Longrightarrow>
     command_switch state =
       (state\<lparr>memory_mode := CMD_SET_VERTICAL_ADDR_MODE\<rparr>, False)"
  "current_command state 0 = CMD_SET_DISPLAY_CLOCK_DIV \<Longrightarrow>
     command_switch state =
       (state\<lparr>clock_divider := 1 + (current_command state 1 AND 0xf)\<rparr>, False)"
  "current_command state 0 = CMD_SET_PRECHARGE \<Longrightarrow>
     command_switch state =
       (state\<lparr>phase1 := current_command state 1 AND 0xf,
              phase2 := drop_bit 4 (current_command state 1) AND 0xf\<rparr>, False)"
  "current_command state 0 = CMD_COM_SCAN_INC \<Longrightarrow>
     command_switch state =
       (state\<lparr>reverse_rows := False\<rparr>, True)"
  "current_command state 0 = CMD_COM_SCAN_DEC \<Longrightarrow>
     command_switch state =
       (state\<lparr>reverse_rows := True\<rparr>, True)"
  "current_command state 0 = CMD_SEG_REMAP_OFF \<Longrightarrow>
     command_switch state =
       (state\<lparr>segment_remap := False\<rparr>, True)"
  "current_command state 0 = CMD_SEG_REMAP_ON \<Longrightarrow>
     command_switch state =
       (state\<lparr>segment_remap := True\<rparr>, True)"
  "current_command state 0 = CMD_SET_DISP_START_LINE \<Longrightarrow>
     command_switch state =
       (state\<lparr>start_line := current_command state 1\<rparr>, True)"
  "current_command state 0 = CMD_SET_DISPLAY_OFFSET \<Longrightarrow>
     command_switch state =
       (state, False)"
  "current_command state 0 = CMD_SET_MULTIPLEX \<Longrightarrow>
     command_switch state =
       (state, False)"
  "current_command state 0 = CMD_SET_VCOM_DESELECT \<Longrightarrow>
     command_switch state =
       (state, False)"
  "current_command state 0 = CMD_SET_COM_PINS \<Longrightarrow>
     command_switch state =
       (state, False)"
  "current_command state 0 = CMD_DISPLAY_ALL_ON \<Longrightarrow>
     command_switch state =
       (state, False)"
  "current_command state 0 = CMD_DISPLAY_ALL_ON_RESUME \<Longrightarrow>
     command_switch state =
       (state, False)"
  by (simp_all add: command_switch_def Let_def)

lemma command_switch_default:
  assumes "current_command state 0 \<notin> switch_labels"
  shows "command_switch state =
           (let command_code = current_command state 0 in
            if command_code \<le> 0x0f then
              (state\<lparr>active_column := (active_column state AND 0x70) OR command_code\<rparr>, False)
            else if command_code \<ge> 0x10 \<and> command_code \<le> 0x17 then
              (state\<lparr>active_column :=
                       (active_column state AND 0x0f) OR push_bit 4 (command_code AND 0x07)\<rparr>,
               False)
            else if command_code \<ge> 0xb0 \<and> command_code \<le> 0xc0 then
              (state\<lparr>active_page := command_code AND 0x0f\<rparr>, True)
            else
              (state\<lparr>printed := printed state @ [command_code]\<rparr>, False))"
proof -
  have ne:
    "current_command state 0 \<noteq> CMD_SET_CONTRAST"
    "current_command state 0 \<noteq> CMD_DISPLAY_OFF"
    "current_command state 0 \<noteq> CMD_DISPLAY_ON"
    "current_command state 0 \<noteq> CMD_NORMAL_DISPLAY"
    "current_command state 0 \<noteq> CMD_INVERT_DISPLAY"
    "current_command state 0 \<noteq> CMD_NOP"
    "current_command state 0 \<noteq> CMD_SET_PAGE_ADDR_MODE"
    "current_command state 0 \<noteq> CMD_SET_VERTICAL_ADDR_MODE"
    "current_command state 0 \<noteq> CMD_SET_DISPLAY_CLOCK_DIV"
    "current_command state 0 \<noteq> CMD_SET_PRECHARGE"
    "current_command state 0 \<noteq> CMD_COM_SCAN_INC"
    "current_command state 0 \<noteq> CMD_COM_SCAN_DEC"
    "current_command state 0 \<noteq> CMD_SEG_REMAP_OFF"
    "current_command state 0 \<noteq> CMD_SEG_REMAP_ON"
    "current_command state 0 \<noteq> CMD_SET_DISP_START_LINE"
    "current_command state 0 \<noteq> CMD_SET_DISPLAY_OFFSET"
    "current_command state 0 \<noteq> CMD_SET_MULTIPLEX"
    "current_command state 0 \<noteq> CMD_SET_VCOM_DESELECT"
    "current_command state 0 \<noteq> CMD_SET_COM_PINS"
    "current_command state 0 \<noteq> CMD_DISPLAY_ALL_ON"
    "current_command state 0 \<noteq> CMD_DISPLAY_ALL_ON_RESUME"
    using assms by (simp_all add: switch_labels_def)
  show ?thesis
    unfolding command_switch_def Let_def
    by (simp only: ne if_False HOL.simp_thms)
qed

lemma command_switch_column_low:
  assumes "current_command state 0 \<le> 0x0f"
  shows "command_switch state =
           (state\<lparr>active_column := (active_column state AND 0x70) OR current_command state 0\<rparr>,
            False)"
proof -
  have "unat (current_command state 0) \<le> 15"
    using assms by (simp add: word_le_nat_alt)
  then have "current_command state 0 \<notin> switch_labels"
    by (simp add: switch_labels_def u8_eq_numeral)
  then show ?thesis
    using assms by (simp add: command_switch_default Let_def)
qed

lemma command_switch_column_high:
  assumes "0x10 \<le> current_command state 0" and "current_command state 0 \<le> 0x17"
  shows "command_switch state =
           (state\<lparr>active_column :=
                    (active_column state AND 0x0f)
                    OR push_bit 4 (current_command state 0 AND 0x07)\<rparr>,
            False)"
proof -
  have r: "16 \<le> unat (current_command state 0)" "unat (current_command state 0) \<le> 23"
    using assms by (simp_all add: word_le_nat_alt)
  then have "current_command state 0 \<notin> switch_labels"
    by (simp add: switch_labels_def u8_eq_numeral)
  moreover have "\<not> current_command state 0 \<le> 0x0f"
    using r by (simp add: word_le_nat_alt)
  ultimately show ?thesis
    using assms by (simp add: command_switch_default Let_def)
qed

lemma command_switch_page:
  assumes "0xb0 \<le> current_command state 0" and "current_command state 0 \<le> 0xbf"
  shows "command_switch state =
           (state\<lparr>active_page := current_command state 0 AND 0x0f\<rparr>, True)"
proof -
  have r: "176 \<le> unat (current_command state 0)" "unat (current_command state 0) \<le> 191"
    using assms by (simp_all add: word_le_nat_alt)
  then have "current_command state 0 \<notin> switch_labels"
    by (simp add: switch_labels_def u8_eq_numeral)
  moreover have "\<not> current_command state 0 \<le> 0x0f"
    "\<not> (0x10 \<le> current_command state 0 \<and> current_command state 0 \<le> 0x17)"
    "current_command state 0 \<le> 0xc0"
    using r by (simp_all add: word_le_nat_alt)
  ultimately show ?thesis
    using assms by (simp add: command_switch_default Let_def)
qed

lemma command_switch_unknown:
  assumes "current_command state 0 \<notin> switch_labels"
    and "\<not> current_command state 0 \<le> 0x0f"
    and "\<not> (0x10 \<le> current_command state 0 \<and> current_command state 0 \<le> 0x17)"
    and "\<not> (0xb0 \<le> current_command state 0 \<and> current_command state 0 \<le> 0xc0)"
  shows "command_switch state =
           (state\<lparr>printed := printed state @ [current_command state 0]\<rparr>, False)"
  unfolding command_switch_default [OF assms(1)] Let_def
  by (simp only: assms(2,3,4) if_False)

lemma process_command_unknown:
  assumes "current_command state 0 \<notin> switch_labels"
    and "\<not> current_command state 0 \<le> 0x0f"
    and "\<not> (0x10 \<le> current_command state 0 \<and> current_command state 0 \<le> 0x17)"
    and "\<not> (0xb0 \<le> current_command state 0 \<and> current_command state 0 \<le> 0xc0)"
  shows "sh1107_process_command state =
           state\<lparr>printed := printed state @ [current_command state 0],
                 current_command_index := 0\<rparr>"
  by (simp add: sh1107_process_command_def command_switch_unknown [OF assms])

lemma process_command_redraw:
  assumes "command_switch state = (s1, True)"
    and "display_on s1 = display_on state" and "updated s1 = updated state"
    and "timer_log s1 = timer_log state"
  shows "if display_on state then trigger_requested state (sh1107_process_command state)
         else no_trigger state (sh1107_process_command state)"
  using assms
  by (simp add: sh1107_process_command_def trigger_requested_def no_trigger_def
      sh1107_schedule_update_def timer_start_def)

lemma process_command_no_redraw:
  assumes "command_switch state = (s1, False)"
    and "updated s1 = updated state" and "timer_log s1 = timer_log state"
  shows "no_trigger state (sh1107_process_command state)"
  using assms by (simp add: sh1107_process_command_def no_trigger_def)

lemma redraw_branches:
  assumes "current_command state 0 \<in>
             {CMD_SET_CONTRAST, CMD_NORMAL_DISPLAY, CMD_INVERT_DISPLAY, CMD_COM_SCAN_INC,
              CMD_COM_SCAN_DEC, CMD_SEG_REMAP_OFF, CMD_SEG_REMAP_ON, CMD_SET_DISP_START_LINE}
           \<or> (0xb0 \<le> current_command state 0 \<and> current_command state 0 \<le> 0xbf)"
  shows "\<exists>s1. command_switch state = (s1, True) \<and> display_on s1 = display_on state
              \<and> updated s1 = updated state \<and> timer_log s1 = timer_log state"
  using assms by (auto simp: command_switch_label command_switch_page)

lemma no_redraw_branches:
  assumes "current_command state 0 \<in>
             {CMD_NOP, CMD_SET_PAGE_ADDR_MODE, CMD_SET_VERTICAL_ADDR_MODE,
              CMD_SET_DISPLAY_CLOCK_DIV, CMD_SET_PRECHARGE, CMD_SET_DISPLAY_OFFSET,
              CMD_SET_MULTIPLEX, CMD_SET_VCOM_DESELECT, CMD_SET_COM_PINS, CMD_DISPLAY_ALL_ON,
              CMD_DISPLAY_ALL_ON_RESUME}
           \<or> current_command state 0 \<le> 0x17"
  shows "\<exists>s1. command_switch state = (s1, False)
              \<and> updated s1 = updated state \<and> timer_log s1 = timer_log state"
proof -
  consider "current_command state 0 \<in>
             {CMD_NOP, CMD_SET_PAGE_ADDR_MODE, CMD_SET_VERTICAL_ADDR_MODE,
              CMD_SET_DISPLAY_CLOCK_DIV, CMD_SET_PRECHARGE, CMD_SET_DISPLAY_OFFSET,
              CMD_SET_MULTIPLEX, CMD_SET_VCOM_DESELECT, CMD_SET_COM_PINS, CMD_DISPLAY_ALL_ON,
              CMD_DISPLAY_ALL_ON_RESUME}"
    | "current_command state 0 \<le> 0x0f"
    | "0x10 \<le> current_command state 0 \<and> current_command state 0 \<le> 0x17"
  proof -
    have "current_command state 0 \<le> 0x0f
          \<or> (0x10 \<le> current_command state 0 \<and> current_command state 0 \<le> 0x17)"
      if "current_command state 0 \<le> 0x17"
      using that by (auto simp: word_le_nat_alt)
    then show ?thesis
      using assms that by blast
  qed
  then show ?thesis
  proof cases
    case 1
    then show ?thesis by (auto simp: command_switch_label)
  next
    case 2
    then show ?thesis by (simp add: command_switch_column_low)
  next
    case 3
    then show ?thesis by (simp add: command_switch_column_high)
  qed
qed

lemma display_switch_branches:
  assumes "current_command state 0 = CMD_DISPLAY_OFF \<or> current_command state 0 = CMD_DISPLAY_ON"
  shows "trigger_requested state (sh1107_process_command state)"
  using assms
  by (auto simp: sh1107_process_command_def command_switch_label trigger_requested_def
      sh1107_schedule_update_def timer_start_def)

text \<open>
  C5, as the claim states it: every recognised command other than the two column-address
  branches and the not-implemented set marks the redraw flag and, with the display on,
  requests a render. The page-addressing-mode command \<open>0x20\<close> is such a command (it sets
  \<open>memory_mode\<close>); on a chip with the display on and no render pending it leaves the flag
  unmarked and requests nothing.
\<close>

theorem addressing_mode_no_redraw_counterexample:
  "current_command (chip_with_command CMD_SET_PAGE_ADDR_MODE) 0 = CMD_SET_PAGE_ADDR_MODE
   \<and> display_on (chip_with_command CMD_SET_PAGE_ADDR_MODE)
   \<and> \<not> updated (chip_with_command CMD_SET_PAGE_ADDR_MODE)
   \<and> \<not> snd (command_switch (chip_with_command CMD_SET_PAGE_ADDR_MODE))
   \<and> \<not> updated (sh1107_process_command (chip_with_command CMD_SET_PAGE_ADDR_MODE))
   \<and> timer_log (sh1107_process_command (chip_with_command CMD_SET_PAGE_ADDR_MODE)) = []"
proof -
  have c: "current_command (chip_with_command CMD_SET_PAGE_ADDR_MODE) 0 = CMD_SET_PAGE_ADDR_MODE"
    by (simp add: chip_with_command_def)
  show ?thesis
    unfolding sh1107_process_command_def command_switch_label(7) [OF c]
    by (simp add: chip_with_command_def chip_init_def sh1107_reset_def zeroed_memory_def)
qed

text \<open>
  C5, amended. The commands set-contrast, normal and invert display, COM scan increment
  and decrement, segment remap off and on, set display start line and page select
  \<open>0xb0\<close> to \<open>0xbf\<close> mark the redraw flag, and a render is requested exactly when
  \<open>display_on\<close> is true. Display off and display on request a render whatever \<open>display_on\<close>
  was. No-op, the two addressing-mode commands, clock divider, precharge, the
  not-implemented set and the column-address opcodes \<open>0x00\<close> to \<open>0x17\<close> leave the flag
  unmarked and request nothing.
\<close>

theorem redraw_flag_and_trigger:
  fixes state :: sh1107_state
  defines "c \<equiv> current_command state 0"
  shows "(c \<in> {CMD_SET_CONTRAST, CMD_NORMAL_DISPLAY, CMD_INVERT_DISPLAY, CMD_COM_SCAN_INC,
               CMD_COM_SCAN_DEC, CMD_SEG_REMAP_OFF, CMD_SEG_REMAP_ON, CMD_SET_DISP_START_LINE}
          \<or> (0xb0 \<le> c \<and> c \<le> 0xbf)
          \<longrightarrow> snd (command_switch state)
              \<and> (if display_on state
                  then trigger_requested state (sh1107_process_command state)
                  else no_trigger state (sh1107_process_command state)))
         \<and> (c = CMD_DISPLAY_OFF \<or> c = CMD_DISPLAY_ON
              \<longrightarrow> trigger_requested state (sh1107_process_command state))
         \<and> (c \<in> {CMD_NOP, CMD_SET_PAGE_ADDR_MODE, CMD_SET_VERTICAL_ADDR_MODE,
                  CMD_SET_DISPLAY_CLOCK_DIV, CMD_SET_PRECHARGE, CMD_SET_DISPLAY_OFFSET,
                  CMD_SET_MULTIPLEX, CMD_SET_VCOM_DESELECT, CMD_SET_COM_PINS,
                  CMD_DISPLAY_ALL_ON, CMD_DISPLAY_ALL_ON_RESUME}
             \<or> c \<le> 0x17
             \<longrightarrow> \<not> snd (command_switch state)
                 \<and> no_trigger state (sh1107_process_command state))"
proof (intro conjI impI)
  assume a: "c \<in> {CMD_SET_CONTRAST, CMD_NORMAL_DISPLAY, CMD_INVERT_DISPLAY, CMD_COM_SCAN_INC,
               CMD_COM_SCAN_DEC, CMD_SEG_REMAP_OFF, CMD_SEG_REMAP_ON, CMD_SET_DISP_START_LINE}
          \<or> (0xb0 \<le> c \<and> c \<le> 0xbf)"
  then obtain s1 where s1: "command_switch state = (s1, True)"
    "display_on s1 = display_on state" "updated s1 = updated state"
    "timer_log s1 = timer_log state"
    using redraw_branches [of state] unfolding c_def by blast
  show "snd (command_switch state)"
    by (simp add: s1(1))
  show "if display_on state then trigger_requested state (sh1107_process_command state)
        else no_trigger state (sh1107_process_command state)"
    using s1 by (rule process_command_redraw)
next
  assume "c = CMD_DISPLAY_OFF \<or> c = CMD_DISPLAY_ON"
  then show "trigger_requested state (sh1107_process_command state)"
    unfolding c_def by (rule display_switch_branches)
next
  assume a: "c \<in> {CMD_NOP, CMD_SET_PAGE_ADDR_MODE, CMD_SET_VERTICAL_ADDR_MODE,
                  CMD_SET_DISPLAY_CLOCK_DIV, CMD_SET_PRECHARGE, CMD_SET_DISPLAY_OFFSET,
                  CMD_SET_MULTIPLEX, CMD_SET_VCOM_DESELECT, CMD_SET_COM_PINS,
                  CMD_DISPLAY_ALL_ON, CMD_DISPLAY_ALL_ON_RESUME}
             \<or> c \<le> 0x17"
  then obtain s1 where s1: "command_switch state = (s1, False)"
    "updated s1 = updated state" "timer_log s1 = timer_log state"
    using no_redraw_branches [of state] unfolding c_def by blast
  show "\<not> snd (command_switch state)"
    by (simp add: s1(1))
  show "no_trigger state (sh1107_process_command state)"
    using s1 by (rule process_command_no_redraw)
qed

theorem redraw_flag_and_trigger_witness:
  "current_command (chip_with_command CMD_INVERT_DISPLAY) 0 = CMD_INVERT_DISPLAY
   \<and> display_on (chip_with_command CMD_INVERT_DISPLAY)
   \<and> snd (command_switch (chip_with_command CMD_INVERT_DISPLAY))
   \<and> trigger_requested (chip_with_command CMD_INVERT_DISPLAY)
        (sh1107_process_command (chip_with_command CMD_INVERT_DISPLAY))
   \<and> current_command (chip_with_command CMD_DISPLAY_OFF) 0 = CMD_DISPLAY_OFF
   \<and> trigger_requested (chip_with_command CMD_DISPLAY_OFF)
        (sh1107_process_command (chip_with_command CMD_DISPLAY_OFF))
   \<and> current_command (chip_with_command CMD_NOP) 0 = CMD_NOP
   \<and> \<not> snd (command_switch (chip_with_command CMD_NOP))
   \<and> no_trigger (chip_with_command CMD_NOP) (sh1107_process_command (chip_with_command CMD_NOP))"
  using redraw_flag_and_trigger [of "chip_with_command CMD_INVERT_DISPLAY"]
    redraw_flag_and_trigger [of "chip_with_command CMD_DISPLAY_OFF"]
    redraw_flag_and_trigger [of "chip_with_command CMD_NOP"]
  by (simp add: chip_with_command_def)

text \<open>
  C4, as the claim states it: every opcode in \<open>[0xb0, 0xc0]\<close> sets
  \<open>active_page = opcode & 0x0f\<close> and changes no other register. With page 5 selected and
  reversed rows, the opcode \<open>0xc0\<close> leaves \<open>active_page\<close> at 5, not \<open>0xc0 & 0x0f = 0\<close>, and
  clears \<open>reverse_rows\<close>.
\<close>

theorem page_select_c0_counterexample:
  "0xb0 \<le> current_command page5_scan_chip 0
   \<and> current_command page5_scan_chip 0 \<le> 0xc0
   \<and> active_page (sh1107_process_command page5_scan_chip) = 5
   \<and> current_command page5_scan_chip 0 AND 0x0f = 0
   \<and> reverse_rows page5_scan_chip
   \<and> \<not> reverse_rows (sh1107_process_command page5_scan_chip)"
proof -
  have c: "current_command page5_scan_chip 0 = CMD_COM_SCAN_INC"
    by (simp add: page5_scan_chip_def chip_with_command_def)
  show ?thesis
    unfolding sh1107_process_command_def command_switch_label(11) [OF c] c
    by (simp add: page5_scan_chip_def chip_with_command_def chip_init_def sh1107_reset_def
        zeroed_memory_def sh1107_schedule_update_def timer_start_def)
qed

text \<open>
  C4, amended. Every opcode in \<open>[0xb0, 0xbf]\<close> sets \<open>active_page = opcode & 0x0f\<close> and
  changes no other register (it resets the command index and, with the display on,
  requests a render). The opcode \<open>0xc0\<close> is the COM-scan-increment command: it clears
  \<open>reverse_rows\<close> and leaves \<open>active_page\<close> as it is.
\<close>

theorem page_select_b0_bf:
  fixes state :: sh1107_state
  defines "c \<equiv> current_command state 0"
  shows "(0xb0 \<le> c \<and> c \<le> 0xbf \<longrightarrow>
            sh1107_process_command state =
              (if display_on state
               then sh1107_schedule_update (state\<lparr>active_page := c AND 0x0f\<rparr>)
               else state\<lparr>active_page := c AND 0x0f\<rparr>)\<lparr>current_command_index := 0\<rparr>)
         \<and> (c = 0xc0 \<longrightarrow>
            sh1107_process_command state =
              (if display_on state
               then sh1107_schedule_update (state\<lparr>reverse_rows := False\<rparr>)
               else state\<lparr>reverse_rows := False\<rparr>)\<lparr>current_command_index := 0\<rparr>)"
  unfolding c_def
  by (simp add: sh1107_process_command_def command_switch_page command_switch_label)

theorem page_select_b0_bf_witness:
  "0xb0 \<le> current_command (chip_with_command 0xb5) 0
   \<and> current_command (chip_with_command 0xb5) 0 \<le> 0xbf
   \<and> active_page (sh1107_process_command (chip_with_command 0xb5)) = 5
   \<and> current_command page5_scan_chip 0 = 0xc0
   \<and> active_page (sh1107_process_command page5_scan_chip) = active_page page5_scan_chip"
  using page_select_b0_bf [of "chip_with_command 0xb5"] page_select_b0_bf [of page5_scan_chip]
  by (simp add: page5_scan_chip_def chip_with_command_def)

section \<open>Invert and normal display\<close>

lemma spec_frame_byte_cong:
  assumes "width a = width b" and "height a = height b" and "x_offset a = x_offset b"
    and "pixels a = pixels b" and "display_on a = display_on b" and "invert a = invert b"
    and "reverse_rows a = reverse_rows b" and "start_line a = start_line b"
  shows "spec_frame_byte a = spec_frame_byte b"
  unfolding fun_eq_iff spec_frame_byte_def spec_output_pixel_def spec_source_index_def
    spec_virtual_y_def
  by (simp only: assms HOL.simp_thms)

lemma rendered_frame:
  assumes "width state = 128" and "height state = 128"
  shows "sh1107_update_buffer state \<noteq> None"
    and "framebuffer (the (sh1107_update_buffer state)) =
           (\<lambda>a. if a < 65536 then spec_frame_byte state a else framebuffer state a)"
    and "updated (the (sh1107_update_buffer state)) = False"
  by (simp_all add: sh1107_update_buffer_eq [OF assms])

lemma rendered_frame_cong:
  assumes "width a = 128" and "height a = 128"
    and "width b = width a" and "height b = height a" and "x_offset a = x_offset b"
    and "pixels a = pixels b" and "display_on a = display_on b" and "invert a = invert b"
    and "reverse_rows a = reverse_rows b" and "start_line a = start_line b"
    and "framebuffer a = framebuffer b"
  shows "framebuffer (the (sh1107_update_buffer a)) = framebuffer (the (sh1107_update_buffer b))"
proof -
  have wb: "width b = 128" and hb: "height b = 128"
    using assms by simp_all
  have sf: "spec_frame_byte a = spec_frame_byte b"
    using assms by (intro spec_frame_byte_cong) simp_all
  show ?thesis
    unfolding rendered_frame(2) [OF assms(1,2)] rendered_frame(2) [OF wb hb]
    by (simp only: sf assms(11))
qed

lemma process_command_invert_normal:
  "current_command s 0 = CMD_INVERT_DISPLAY \<Longrightarrow>
     sh1107_process_command s =
       (if display_on s then sh1107_schedule_update (s\<lparr>invert := True\<rparr>)
        else s\<lparr>invert := True\<rparr>)\<lparr>current_command_index := 0\<rparr>"
  "current_command s 0 = CMD_NORMAL_DISPLAY \<Longrightarrow>
     sh1107_process_command s =
       (if display_on s then sh1107_schedule_update (s\<lparr>invert := False\<rparr>)
        else s\<lparr>invert := False\<rparr>)\<lparr>current_command_index := 0\<rparr>"
  by (simp_all add: sh1107_process_command_def command_switch_label)

lemma fields_after_invert_normal:
  fixes state :: sh1107_state
  defines "s2 \<equiv> interpret_opcode (interpret_opcode state CMD_INVERT_DISPLAY) CMD_NORMAL_DISPLAY"
  shows "width s2 = width state" "height s2 = height state" "x_offset s2 = x_offset state"
    "pixels s2 = pixels state" "display_on s2 = display_on state" "invert s2 = False"
    "reverse_rows s2 = reverse_rows state" "start_line s2 = start_line state"
    "framebuffer s2 = framebuffer state"
  unfolding s2_def interpret_opcode_def
  by (simp_all add: process_command_invert_normal)

text \<open>
  C8, as the claim states it: for every configuration, invert then normal then render
  gives the frame of the original state. On a chip whose display is on and already
  inverted, with empty pixel memory, the first byte of the original frame is lit and the
  first byte of the frame after the two commands is dark.
\<close>

theorem invert_round_trip_counterexample:
  "width inverted_chip = 128 \<and> height inverted_chip = 128
   \<and> sh1107_update_buffer inverted_chip \<noteq> None
   \<and> framebuffer (the (sh1107_update_buffer inverted_chip)) 0 = 0xff
   \<and> sh1107_update_buffer
         (interpret_opcode (interpret_opcode inverted_chip CMD_INVERT_DISPLAY) CMD_NORMAL_DISPLAY)
       \<noteq> None
   \<and> framebuffer (the (sh1107_update_buffer
         (interpret_opcode (interpret_opcode inverted_chip CMD_INVERT_DISPLAY)
            CMD_NORMAL_DISPLAY))) 0 = 0"
proof -
  define s2 where
    "s2 = interpret_opcode (interpret_opcode inverted_chip CMD_INVERT_DISPLAY) CMD_NORMAL_DISPLAY"
  note f = fields_after_invert_normal [of inverted_chip, folded s2_def]
  have w: "width inverted_chip = 128" and h: "height inverted_chip = 128"
    by (simp_all add: inverted_chip_def chip_init_def sh1107_reset_def)
  have w2: "width s2 = 128" and h2: "height s2 = 128"
    using w h f(1,2) by simp_all
  have v: "spec_virtual_y inverted_chip 0 = 0" "spec_virtual_y s2 0 = 0"
    by (simp_all add: spec_virtual_y_def f w h)
       (simp_all add: inverted_chip_def chip_init_def sh1107_reset_def)
  have i: "spec_source_index inverted_chip 0 0 = 96" "spec_source_index s2 0 0 = 96"
    by (simp_all add: spec_source_index_def v f w)
       (simp_all add: inverted_chip_def chip_init_def sh1107_reset_def)
  have p: "spec_output_pixel inverted_chip 0 0 = 0xffffffff" "spec_output_pixel s2 0 0 = 0"
    by (simp_all add: spec_output_pixel_def v i f)
       (simp_all add: inverted_chip_def chip_init_def sh1107_reset_def zeroed_memory_def)
  have "spec_frame_byte inverted_chip 0 = 0xff" "spec_frame_byte s2 0 = 0"
    by (simp_all add: spec_frame_byte_def w w2 p word_bytes_def)
  then show ?thesis
    unfolding s2_def [symmetric]
    using w h rendered_frame [OF w h] rendered_frame [OF w2 h2] by simp
qed

text \<open>
  C8, amended. For every pixel memory content and configuration, interpreting invert
  (\<open>0xa7\<close>) and then normal (\<open>0xa6\<close>) and rendering yields, at every byte, the frame of the
  original state with \<open>invert\<close> cleared; so it yields the frame of the original state
  whenever the original state was not inverted.
\<close>

theorem invert_then_normal:
  fixes state :: sh1107_state
  assumes "width state = 128" and "height state = 128"
  defines "s2 \<equiv> interpret_opcode (interpret_opcode state CMD_INVERT_DISPLAY) CMD_NORMAL_DISPLAY"
  shows "sh1107_update_buffer s2 \<noteq> None
         \<and> sh1107_update_buffer state \<noteq> None
         \<and> framebuffer (the (sh1107_update_buffer s2))
             = framebuffer (the (sh1107_update_buffer (state\<lparr>invert := False\<rparr>)))
         \<and> (\<not> invert state \<longrightarrow>
               framebuffer (the (sh1107_update_buffer s2))
                 = framebuffer (the (sh1107_update_buffer state)))"
proof -
  note f = fields_after_invert_normal [of state, folded s2_def]
  have w2: "width s2 = 128" and h2: "height s2 = 128"
    using assms(1,2) f(1,2) by simp_all
  have e: "framebuffer (the (sh1107_update_buffer s2))
             = framebuffer (the (sh1107_update_buffer (state\<lparr>invert := False\<rparr>)))"
    using w2 h2 f by (intro rendered_frame_cong) simp_all
  have "framebuffer (the (sh1107_update_buffer s2))
          = framebuffer (the (sh1107_update_buffer state))" if "\<not> invert state"
  proof -
    have "state\<lparr>invert := False\<rparr> = state"
      using that by simp
    with e show ?thesis
      by simp
  qed
  with e rendered_frame(1) [OF w2 h2] rendered_frame(1) [OF assms(1,2)] show ?thesis
    by blast
qed

theorem invert_then_normal_witness:
  "width lit_cell_chip = 128 \<and> height lit_cell_chip = 128 \<and> \<not> invert lit_cell_chip
   \<and> sh1107_update_buffer lit_cell_chip \<noteq> None
   \<and> framebuffer (the (sh1107_update_buffer
         (interpret_opcode (interpret_opcode lit_cell_chip CMD_INVERT_DISPLAY)
            CMD_NORMAL_DISPLAY)))
       = framebuffer (the (sh1107_update_buffer lit_cell_chip))"
proof -
  have h: "width lit_cell_chip = 128" "height lit_cell_chip = 128"
    by (simp_all add: lit_cell_chip_def chip_init_def sh1107_reset_def)
  have n: "\<not> invert lit_cell_chip"
    by (simp add: lit_cell_chip_def chip_init_def sh1107_reset_def)
  show ?thesis
    using invert_then_normal [OF h] h n by blast
qed

section \<open>Invariants of the reachable states\<close>

lemma unat_less_of_uint: "uint w < int n \<Longrightarrow> unat w < n"
  unfolding uint_nat by (rule iffD1 [OF of_nat_less_iff])

lemma page_bound: "unat (c AND 0x0f :: u8) < 16"
proof -
  have "uint (c AND 0x0f) = uint c AND 15"
    by (simp add: uint_and)
  moreover have "uint c AND 15 < 16"
    by (rule AND_upper2'') simp_all
  ultimately have "uint (c AND 0x0f) < int 16"
    by simp
  then show ?thesis
    by (rule unat_less_of_uint)
qed

lemma column_low_bound:
  fixes c col :: u8
  assumes "c \<le> 0x0f"
  shows "unat ((col AND 0x70) OR c) < 128"
proof -
  have e: "uint ((col AND 0x70) OR c) = (uint col AND 112) OR uint c"
    by (simp add: uint_or uint_and)
  have "uint c \<le> 15"
    using assms by (simp add: word_le_def)
  then have c: "uint c < 2 ^ 7"
    by simp
  have a: "0 \<le> uint col AND 112" "uint col AND 112 < 2 ^ 7"
    by (simp, rule AND_upper2'') simp_all
  have "(uint col AND 112) OR uint c < 2 ^ 7"
    using a c by (rule OR_upper)
  then have "uint ((col AND 0x70) OR c) < int 128"
    unfolding e by simp
  then show ?thesis
    by (rule unat_less_of_uint)
qed

lemma column_high_bound:
  fixes c col :: u8
  shows "unat ((col AND 0x0f) OR push_bit 4 (c AND 0x07)) < 128"
proof -
  have s: "0 \<le> uint c AND 7" "uint c AND 7 \<le> 7"
    by simp_all
  have "uint (push_bit 4 (c AND 0x07)) = ((uint c AND 7) * 16) mod 256"
    by (simp add: push_bit_eq_mult uint_word_ariths uint_and)
  also have "\<dots> = (uint c AND 7) * 16"
    using s by simp
  finally have p: "uint (push_bit 4 (c AND 0x07)) = (uint c AND 7) * 16" .
  have pb: "uint (push_bit 4 (c AND 0x07)) < 2 ^ 7"
    unfolding p using s by simp
  have e: "uint ((col AND 0x0f) OR push_bit 4 (c AND 0x07))
             = (uint col AND 15) OR uint (push_bit 4 (c AND 0x07))"
    by (simp add: uint_or uint_and)
  have a: "0 \<le> uint col AND 15" "uint col AND 15 < 2 ^ 7"
    by (simp, rule AND_upper2'') simp_all
  have "(uint col AND 15) OR uint (push_bit 4 (c AND 0x07)) < 2 ^ 7"
    using a pb by (rule OR_upper)
  then have "uint ((col AND 0x0f) OR push_bit 4 (c AND 0x07)) < int 128"
    unfolding e by simp
  then show ?thesis
    by (rule unat_less_of_uint)
qed

lemma process_data_explicit:
  assumes wl: "unat (width state) \<le> 128"
    and cl: "unat (active_column state) < unat (width state)"
    and pl: "unat (active_page state) < 16"
  shows "\<exists>C P. sh1107_process_data state v =
                 Some (sh1107_schedule_update
                        (state\<lparr>pixels := (pixels state)(spec_target_cell state := v),
                               active_column := C, active_page := P\<rparr>))
               \<and> unat C < unat (width state) \<and> unat P < 16"
proof -
  obtain r where r: "sh1107_process_data state v = Some (sh1107_schedule_update r)"
    and rest: "r\<lparr>pixels := pixels state, active_column := active_column state,
                  active_page := active_page state\<rparr> = state"
    and px: "pixels r = (pixels state)(spec_target_cell state := v)"
    and cur: "if memory_mode state = CMD_SET_PAGE_ADDR_MODE
              then unat (active_column r)
                     = (unat (active_column state) + 1) mod unat (width state)
                   \<and> active_page r = active_page state
              else if unat (active_page state) + 1 > 15
              then active_page r = 0
                   \<and> unat (active_column r)
                       = (unat (active_column state) + 1) mod unat (width state)
              else unat (active_page r) = unat (active_page state) + 1
                   \<and> active_column r = active_column state"
    using process_data_result [OF wl cl pl, of v] by blast
  have "state\<lparr>pixels := pixels r, active_column := active_column r,
              active_page := active_page r\<rparr> = r"
    by (subst rest [symmetric]) simp
  then have e: "r = state\<lparr>pixels := (pixels state)(spec_target_cell state := v),
                         active_column := active_column r, active_page := active_page r\<rparr>"
    by (simp add: px)
  have wpos: "0 < unat (width state)"
    using cl by simp
  have m: "(unat (active_column state) + 1) mod unat (width state) < unat (width state)"
    using wpos by simp
  have "unat (active_column r) < unat (width state)"
    using cur cl m by (simp split: if_splits)
  moreover have "unat (active_page r) < 16"
    using cur pl by (simp split: if_splits)
  ultimately show ?thesis
    using r e by metis
qed


lemma end_of_byte_fields [simp]:
  "width (end_of_byte s) = width s"
  "height (end_of_byte s) = height s"
  "active_column (end_of_byte s) = active_column s"
  "active_page (end_of_byte s) = active_page s"
  "current_command_index (end_of_byte s) = current_command_index s"
  "current_command_length (end_of_byte s) = current_command_length s"
  by (simp_all add: end_of_byte_def)

lemma command_switch_inv:
  assumes "width s = 128" and "height s = 128"
    and "unat (active_column s) < 128" and "unat (active_page s) < 16"
  shows "width (fst (command_switch s)) = 128 \<and> height (fst (command_switch s)) = 128
         \<and> unat (active_column (fst (command_switch s))) < 128
         \<and> unat (active_page (fst (command_switch s))) < 16
         \<and> current_command_length (fst (command_switch s)) = current_command_length s"
proof (cases "current_command s 0 \<in> switch_labels")
  case True
  then show ?thesis
    using assms unfolding switch_labels_def by (auto simp: command_switch_label)
next
  case False
  show ?thesis
    using assms column_low_bound [of "current_command s 0" "active_column s"]
      column_high_bound [of "active_column s" "current_command s 0"]
      page_bound [of "current_command s 0"]
    by (simp add: command_switch_default [OF False] Let_def)
qed

lemma process_command_inv:
  assumes "width s = 128" and "height s = 128"
    and "unat (active_column s) < 128" and "unat (active_page s) < 16"
  shows "width (sh1107_process_command s) = 128 \<and> height (sh1107_process_command s) = 128
         \<and> unat (active_column (sh1107_process_command s)) < 128
         \<and> unat (active_page (sh1107_process_command s)) < 16
         \<and> current_command_length (sh1107_process_command s) = current_command_length s
         \<and> current_command_index (sh1107_process_command s) = 0"
proof -
  obtain s1 a where c: "command_switch s = (s1, a)"
    by (cases "command_switch s")
  from command_switch_inv [OF assms] c show ?thesis
    by (simp add: sh1107_process_command_def)
qed


lemma i2c_write_control:
  "control_byte s \<Longrightarrow>
     sh1107_i2c_write s v =
       Some (True, s\<lparr>command_mode := (v AND SH1107_CONTROL_DC = 0),
                      continuous_mode := (v AND SH1107_CONTROL_CO = 0),
                      control_byte := False\<rparr>)"
  by (simp add: sh1107_i2c_write_def)

lemma i2c_write_first:
  assumes "\<not> control_byte s" and "command_mode s" and "current_command_index s = 0"
  shows "sh1107_i2c_write s v =
           (case multi_byte_commands_at v of
              None \<Rightarrow> None
            | Some n \<Rightarrow>
                (if 1 < 1 + n
                 then Some (True, s\<lparr>current_command := (current_command s)(0 := v),
                                     current_command_length := 1 + n,
                                     current_command_index := 1\<rparr>)
                 else Some (True, end_of_byte (sh1107_process_command
                                   (s\<lparr>current_command := (current_command s)(0 := v),
                                      current_command_length := 1 + n,
                                      current_command_index := 1\<rparr>)))))"
  using assms by (simp add: sh1107_i2c_write_def Let_def split: option.splits)

lemma i2c_write_second:
  assumes "\<not> control_byte s" and "command_mode s" and "current_command_index s = 1"
    and "current_command_length s = 2"
  shows "sh1107_i2c_write s v =
           Some (True, end_of_byte (sh1107_process_command
                         (s\<lparr>current_command := (current_command s)(1 := v),
                            current_command_index := 2\<rparr>)))"
  using assms by (simp add: sh1107_i2c_write_def Let_def)

lemma i2c_write_data:
  assumes "\<not> control_byte s" and "\<not> command_mode s"
  shows "sh1107_i2c_write s v =
           (case sh1107_process_data s v of None \<Rightarrow> None | Some s1 \<Rightarrow> Some (True, end_of_byte s1))"
  using assms by (simp add: sh1107_i2c_write_def)

lemma table_value:
  "multi_byte_commands_at v = Some n \<Longrightarrow> n = 0 \<or> n = 1"
proof -
  assume a: "multi_byte_commands_at v = Some n"
  then have "unat v < 221"
    by (simp add: multi_byte_commands_at_def length_multi_byte_commands split: if_splits)
  from multi_byte_commands_at_in_bounds [OF this] a show ?thesis
    by (simp split: if_splits)
qed

lemma i2c_write_inv:
  assumes inv: "inductive_invariant s"
  shows "(sh1107_i2c_write s v = None) = table_overrun s (I2C_Write v)"
    and "sh1107_i2c_write s v = Some r \<Longrightarrow> inductive_invariant (snd r)"
proof -
  have w: "width s = 128" and h: "height s = 128"
    and cl: "unat (active_column s) < 128" and pl: "unat (active_page s) < 16"
    and ix: "current_command_index s = 0
             \<or> current_command_index s = 1 \<and> current_command_length s = 2"
    using inv by (simp_all add: inductive_invariant_def)
  have both: "((sh1107_i2c_write s v = None) = table_overrun s (I2C_Write v))
              \<and> (\<forall>r. sh1107_i2c_write s v = Some r \<longrightarrow> inductive_invariant (snd r))"
  proof (cases "control_byte s")
    case True
    then show ?thesis
      using inv by (simp add: i2c_write_control table_overrun_def inductive_invariant_def)
  next
    case cb: False
    show ?thesis
    proof (cases "command_mode s")
      case cm: True
      from ix show ?thesis
      proof
        assume i0: "current_command_index s = 0"
        show ?thesis
        proof (cases "multi_byte_commands_at v")
          case None
          then show ?thesis
            using cb cm i0 multi_byte_commands_at_None [of v]
            by (simp add: i2c_write_first table_overrun_def)
        next
          case (Some n)
          then have nv: "\<not> CMD_SET_DISP_START_LINE < v"
            using multi_byte_commands_at_None [of v] by simp
          define s3 where
            "s3 = s\<lparr>current_command := (current_command s)(0 := v),
                     current_command_length := 1 + n, current_command_index := 1\<rparr>"
          have p3: "width s3 = 128" "height s3 = 128" "unat (active_column s3) < 128"
            "unat (active_page s3) < 16"
            using w h cl pl by (simp_all add: s3_def)
          from table_value [OF Some] show ?thesis
          proof
            assume "n = 0"
            then have "sh1107_i2c_write s v = Some (True, end_of_byte (sh1107_process_command s3))"
              using cb cm i0 Some by (simp add: i2c_write_first s3_def)
            then show ?thesis
              using process_command_inv [OF p3] cb cm nv
              by (simp add: table_overrun_def inductive_invariant_def)
          next
            assume n1: "n = 1"
            then have "sh1107_i2c_write s v = Some (True, s3)"
              using cb cm i0 Some by (simp add: i2c_write_first s3_def)
            then show ?thesis
              using p3 cb cm nv n1
              by (simp add: table_overrun_def inductive_invariant_def s3_def)
          qed
        qed
      next
        assume i1: "current_command_index s = 1 \<and> current_command_length s = 2"
        define s3 where
          "s3 = s\<lparr>current_command := (current_command s)(1 := v), current_command_index := 2\<rparr>"
        have p3: "width s3 = 128" "height s3 = 128" "unat (active_column s3) < 128"
          "unat (active_page s3) < 16"
          using w h cl pl by (simp_all add: s3_def)
        have "sh1107_i2c_write s v = Some (True, end_of_byte (sh1107_process_command s3))"
          using cb cm i1 by (simp add: i2c_write_second s3_def)
        then show ?thesis
          using process_command_inv [OF p3] i1
          by (simp add: table_overrun_def inductive_invariant_def)
      qed
    next
      case dm: False
      have wl: "unat (width s) \<le> 128" and cw: "unat (active_column s) < unat (width s)"
        using w cl by simp_all
      obtain C P where d: "sh1107_process_data s v =
          Some (sh1107_schedule_update
                 (s\<lparr>pixels := (pixels s)(spec_target_cell s := v),
                    active_column := C, active_page := P\<rparr>))"
        and b: "unat C < unat (width s)" "unat P < 16"
        using process_data_explicit [OF wl cw pl, of v] by blast
      show ?thesis
        using cb dm d b w h ix
        by (simp add: i2c_write_data table_overrun_def inductive_invariant_def)
    qed
  qed
  from both show "(sh1107_i2c_write s v = None) = table_overrun s (I2C_Write v)"
    by simp
  from both show "sh1107_i2c_write s v = Some r \<Longrightarrow> inductive_invariant (snd r)"
    by simp
qed


lemma timer_fire_inv:
  assumes inv: "inductive_invariant s"
  shows "\<exists>s'. timer_fire s = Some s' \<and> inductive_invariant s'"
proof (cases "timer_armed s")
  case True
  have w: "width (s\<lparr>timer_armed := False\<rparr>) = 128"
    and h: "height (s\<lparr>timer_armed := False\<rparr>) = 128"
    using inv by (simp_all add: inductive_invariant_def)
  show ?thesis
    using True inv
    by (simp add: timer_fire_def sh1107_update_buffer_eq [OF w h] inductive_invariant_def)
next
  case False
  then show ?thesis
    using inv by (simp add: timer_fire_def)
qed

lemma step_inv:
  assumes inv: "inductive_invariant s"
  shows "(step s e = None) = table_overrun s e"
    and "step s e = Some s' \<Longrightarrow> inductive_invariant s'"
proof -
  have "((step s e = None) = table_overrun s e)
        \<and> (\<forall>s'. step s e = Some s' \<longrightarrow> inductive_invariant s')"
  proof (cases e)
    case I2C_Connect
    then show ?thesis
      using inv by (simp add: sh1107_i2c_connect_def table_overrun_def inductive_invariant_def)
  next
    case (I2C_Write v)
    then show ?thesis
      using i2c_write_inv(1) [OF inv, of v] i2c_write_inv(2) [OF inv, of v]
      by auto
  next
    case I2C_Read
    then show ?thesis
      using inv by (simp add: table_overrun_def)
  next
    case Timer_Fire
    then show ?thesis
      using timer_fire_inv [OF inv] by (auto simp: table_overrun_def)
  qed
  then show "(step s e = None) = table_overrun s e"
    and "step s e = Some s' \<Longrightarrow> inductive_invariant s'"
    by simp_all
qed

lemma run_inv:
  "inductive_invariant s \<Longrightarrow> run s es = Some s' \<Longrightarrow> inductive_invariant s'"
proof (induction es arbitrary: s)
  case Nil
  then show ?case by simp
next
  case (Cons e es)
  then obtain s1 where s1: "step s e = Some s1" and r: "run s1 es = Some s'"
    by (auto split: option.splits)
  have "inductive_invariant s1"
    using Cons.prems(1) s1 by (rule step_inv(2))
  then show ?case
    using r by (rule Cons.IH)
qed

lemma chip_init_inv: "inductive_invariant (chip_init mem 128 128)"
  by (simp add: inductive_invariant_def chip_init_def sh1107_reset_def)

lemma inductive_invariant_cursor: "inductive_invariant s \<Longrightarrow> cursor_invariants s"
  by (auto simp: inductive_invariant_def cursor_invariants_def)

text \<open>
  C6, as the claim states it: from construction on, every operation keeps
  \<open>command_index < expected_length \<le> 8\<close> among the invariants. \<^verbatim>\<open>sh1107_reset\<close> does not
  assign \<^verbatim>\<open>current_command_length\<close>; on zero-filled memory it is 0 after construction and
  still 0 after a connect, a control byte selecting data mode and a data byte, where
  the command index is 0 as well.
\<close>

theorem reachable_invariants_counterexample:
  "run (chip_init zeroed_memory 128 128) [I2C_Connect, I2C_Write 0x40, I2C_Write 0xff] \<noteq> None
   \<and> current_command_index
         (the (run (chip_init zeroed_memory 128 128) [I2C_Connect, I2C_Write 0x40, I2C_Write 0xff])) = 0
   \<and> current_command_length
         (the (run (chip_init zeroed_memory 128 128) [I2C_Connect, I2C_Write 0x40, I2C_Write 0xff])) = 0
   \<and> \<not> spec_invariants (chip_init zeroed_memory 128 128)
   \<and> \<not> spec_invariants
         (the (run (chip_init zeroed_memory 128 128) [I2C_Connect, I2C_Write 0x40, I2C_Write 0xff]))"
  by (simp add: chip_init_def sh1107_reset_def zeroed_memory_def sh1107_i2c_connect_def
      sh1107_i2c_write_def sh1107_process_data_def Let_def advance_column_def
      sh1107_schedule_update_def timer_start_def end_of_byte_def spec_invariants_def)

text \<open>
  C6, amended. In every state reached from construction (on memory of any content, with
  a pixel sink of 128 by 128 pixels) by connects, writes, reads and render ticks, \<open>active_column < width\<close>, \<open>active_page < 16\<close>,
  and the command index is 0 or below an expected length of at most 8; the index is
  below 8, so the command buffer is written in bounds. The only event without a defined
  result in such a state is a first command byte above \<open>0xdc\<close>, whose table lookup is out
  of bounds; what follows it is left open.
\<close>

theorem reachable_invariants:
  assumes "run (chip_init mem 128 128) es = Some s"
  shows "cursor_invariants s \<and> unat (current_command_index s) < COMMAND_SIZE
         \<and> (\<forall>e. (step s e = None) = table_overrun s e)"
proof -
  have inv: "inductive_invariant s"
    using chip_init_inv assms by (rule run_inv)
  have "unat (current_command_index s) < COMMAND_SIZE"
    using inv by (auto simp: inductive_invariant_def)
  with inv show ?thesis
    by (simp add: inductive_invariant_cursor step_inv(1))
qed

theorem reachable_invariants_witness:
  "run (chip_init zeroed_memory 128 128) [I2C_Connect, I2C_Write 0x00, I2C_Write CMD_SET_CONTRAST] \<noteq> None
   \<and> cursor_invariants
        (the (run (chip_init zeroed_memory 128 128)
                [I2C_Connect, I2C_Write 0x00, I2C_Write CMD_SET_CONTRAST]))
   \<and> current_command_index
        (the (run (chip_init zeroed_memory 128 128)
                [I2C_Connect, I2C_Write 0x00, I2C_Write CMD_SET_CONTRAST])) = 1
   \<and> current_command_length
        (the (run (chip_init zeroed_memory 128 128)
                [I2C_Connect, I2C_Write 0x00, I2C_Write CMD_SET_CONTRAST])) = 2"
proof -
  have t: "multi_byte_commands_at CMD_SET_CONTRAST = Some 1"
    by (simp add: multi_byte_commands_at_in_bounds)
  have r: "run (chip_init zeroed_memory 128 128) [I2C_Connect, I2C_Write 0x00, I2C_Write CMD_SET_CONTRAST]
           = Some ((chip_init zeroed_memory 128 128)
                    \<lparr>command_mode := True, continuous_mode := True, control_byte := False,
                     current_command := (\<lambda>i. 0)(0 := CMD_SET_CONTRAST),
                     current_command_length := 2, current_command_index := 1\<rparr>)"
    by (simp add: chip_init_def sh1107_reset_def zeroed_memory_def sh1107_i2c_connect_def
        sh1107_i2c_write_def t)
  show ?thesis
    using reachable_invariants [OF r] unfolding r by simp
qed

section \<open>Render coalescing\<close>

text \<open>
  C9. Two data writes, each of which requests a render, starting with no render pending:
  the first request sets the pending flag and starts the one-shot timer (16667, not
  repeating); a further request is then a no-op, and after the second write the timer has
  still been started once; the render that fires reads the state as it is then, with both
  bytes in pixel memory, writes its frame, and clears the pending flag.
\<close>

theorem render_coalescing:
  assumes nu: "\<not> updated state"
    and w: "width state = 128" and h: "height state = 128"
    and cl: "unat (active_column state) < 128" and pl: "unat (active_page state) < 16"
  shows "sh1107_schedule_update state =
           state\<lparr>updated := True, timer_armed := True,
                 timer_log := timer_log state @ [(16667, False)]\<rparr>
         \<and> (\<exists>s1 s2 s3.
           sh1107_process_data state v1 = Some s1
           \<and> sh1107_process_data s1 v2 = Some s2
           \<and> timer_fire s2 = Some s3
           \<and> updated s1 \<and> timer_armed s1 \<and> timer_log s1 = timer_log state @ [(16667, False)]
           \<and> sh1107_schedule_update s1 = s1
           \<and> updated s2 \<and> timer_armed s2 \<and> timer_log s2 = timer_log s1
           \<and> pixels s2 = (pixels state)(spec_target_cell state := v1, spec_target_cell s1 := v2)
           \<and> \<not> updated s3 \<and> \<not> timer_armed s3 \<and> timer_log s3 = timer_log s1
           \<and> framebuffer s3 =
               (\<lambda>a. if a < 65536 then spec_frame_byte s2 a else framebuffer state a))"
proof -
  have first: "sh1107_schedule_update state =
                 state\<lparr>updated := True, timer_armed := True,
                       timer_log := timer_log state @ [(16667, False)]\<rparr>"
    using nu by (simp add: sh1107_schedule_update_def timer_start_def)
  have wl: "unat (width state) \<le> 128" and cw: "unat (active_column state) < unat (width state)"
    using w cl by simp_all
  obtain C1 P1 where d1: "sh1107_process_data state v1 =
        Some (sh1107_schedule_update
               (state\<lparr>pixels := (pixels state)(spec_target_cell state := v1),
                      active_column := C1, active_page := P1\<rparr>))"
    and b1: "unat C1 < unat (width state)" "unat P1 < 16"
    using process_data_explicit [OF wl cw pl, of v1] by blast
  define s1 where
    "s1 = sh1107_schedule_update
            (state\<lparr>pixels := (pixels state)(spec_target_cell state := v1),
                   active_column := C1, active_page := P1\<rparr>)"
  have s1e: "s1 = state\<lparr>pixels := (pixels state)(spec_target_cell state := v1),
                        active_column := C1, active_page := P1, updated := True,
                        timer_armed := True,
                        timer_log := timer_log state @ [(16667, False)]\<rparr>"
    using nu by (simp add: s1_def sh1107_schedule_update_def timer_start_def)
  have wl1: "unat (width s1) \<le> 128" and cw1: "unat (active_column s1) < unat (width s1)"
    and pl1: "unat (active_page s1) < 16"
    using w b1 by (simp_all add: s1e)
  obtain C2 P2 where d2: "sh1107_process_data s1 v2 =
        Some (sh1107_schedule_update
               (s1\<lparr>pixels := (pixels s1)(spec_target_cell s1 := v2),
                   active_column := C2, active_page := P2\<rparr>))"
    using process_data_explicit [OF wl1 cw1 pl1, of v2] by blast
  define s2 where
    "s2 = sh1107_schedule_update
            (s1\<lparr>pixels := (pixels s1)(spec_target_cell s1 := v2),
                active_column := C2, active_page := P2\<rparr>)"
  have s2e: "s2 = s1\<lparr>pixels := (pixels s1)(spec_target_cell s1 := v2),
                     active_column := C2, active_page := P2\<rparr>"
    by (simp add: s2_def sh1107_schedule_update_def s1e)
  have w2: "width (s2\<lparr>timer_armed := False\<rparr>) = 128"
    and h2: "height (s2\<lparr>timer_armed := False\<rparr>) = 128"
    using w h by (simp_all add: s2e s1e)
  define s3 where
    "s3 = s2\<lparr>timer_armed := False,
              framebuffer := (\<lambda>a. if a < 65536 then spec_frame_byte s2 a else framebuffer s2 a),
              updated := False\<rparr>"
  have sf: "spec_frame_byte (s2\<lparr>timer_armed := False\<rparr>) = spec_frame_byte s2"
    by (rule spec_frame_byte_cong) simp_all
  have ub: "sh1107_update_buffer (s2\<lparr>timer_armed := False\<rparr>) = Some s3"
    unfolding sh1107_update_buffer_eq [OF w2 h2] sf s3_def by (simp cong: if_cong)
  have ta: "timer_armed s2"
    by (simp add: s2e s1e)
  have fire: "timer_fire s2 = Some s3"
    unfolding timer_fire_def using ta ub by simp
  have f1: "updated s1" "timer_armed s1" "timer_log s1 = timer_log state @ [(16667, False)]"
    and g1: "pixels s1 = (pixels state)(spec_target_cell state := v1)"
      "framebuffer s1 = framebuffer state"
    by (simp_all add: s1e)
  have f2: "updated s2" "timer_armed s2" "timer_log s2 = timer_log s1"
    "pixels s2 = (pixels state)(spec_target_cell state := v1, spec_target_cell s1 := v2)"
    and g2: "framebuffer s2 = framebuffer state"
    by (simp_all add: s2e f1 g1)
  have f3: "\<not> updated s3" "\<not> timer_armed s3" "timer_log s3 = timer_log s1"
    "framebuffer s3 = (\<lambda>a. if a < 65536 then spec_frame_byte s2 a else framebuffer state a)"
    by (simp_all add: s3_def f2 g2 cong: if_cong)
  have e1: "sh1107_process_data state v1 = Some s1"
    unfolding s1_def by (rule d1)
  have e2: "sh1107_process_data s1 v2 = Some s2"
    unfolding s2_def by (rule d2)
  have n1: "sh1107_schedule_update s1 = s1"
    using f1(1) by (simp add: sh1107_schedule_update_def)
  from e1 e2 fire f1 n1 f2 f3 have "\<exists>s1 s2 s3.
           sh1107_process_data state v1 = Some s1
           \<and> sh1107_process_data s1 v2 = Some s2
           \<and> timer_fire s2 = Some s3
           \<and> updated s1 \<and> timer_armed s1 \<and> timer_log s1 = timer_log state @ [(16667, False)]
           \<and> sh1107_schedule_update s1 = s1
           \<and> updated s2 \<and> timer_armed s2 \<and> timer_log s2 = timer_log s1
           \<and> pixels s2 = (pixels state)(spec_target_cell state := v1, spec_target_cell s1 := v2)
           \<and> \<not> updated s3 \<and> \<not> timer_armed s3 \<and> timer_log s3 = timer_log s1
           \<and> framebuffer s3 =
               (\<lambda>a. if a < 65536 then spec_frame_byte s2 a else framebuffer state a)"
    by blast
  with first show ?thesis
    by (rule conjI)
qed


theorem render_coalescing_witness:
  "\<not> updated lit_cell_chip \<and> width lit_cell_chip = 128 \<and> height lit_cell_chip = 128
   \<and> unat (active_column lit_cell_chip) < 128 \<and> unat (active_page lit_cell_chip) < 16
   \<and> (\<exists>s1 s2 s3.
          sh1107_process_data lit_cell_chip 0x0f = Some s1
          \<and> sh1107_process_data s1 0xf0 = Some s2
          \<and> timer_fire s2 = Some s3
          \<and> timer_log s1 = [(16667, False)] \<and> timer_log s2 = [(16667, False)]
          \<and> timer_log s3 = [(16667, False)] \<and> \<not> updated s3)"
proof -
  have h: "\<not> updated lit_cell_chip" "width lit_cell_chip = 128" "height lit_cell_chip = 128"
    "unat (active_column lit_cell_chip) < 128" "unat (active_page lit_cell_chip) < 16"
    by (simp_all add: lit_cell_chip_def chip_init_def sh1107_reset_def)
  have l: "timer_log lit_cell_chip = []"
    by (simp add: lit_cell_chip_def chip_init_def)
  obtain s1 s2 s3 where "sh1107_process_data lit_cell_chip 0x0f = Some s1"
    "sh1107_process_data s1 0xf0 = Some s2" "timer_fire s2 = Some s3"
    "timer_log s1 = timer_log lit_cell_chip @ [(16667, False)]"
    "timer_log s2 = timer_log s1" "timer_log s3 = timer_log s1" "\<not> updated s3"
    using render_coalescing [OF h, of "0x0f" "0xf0"] by blast
  then show ?thesis
    using h l by auto
qed

section \<open>Unknown opcodes\<close>

text \<open>
  C7. A command whose opcode no branch recognises (no case label of the \<^verbatim>\<open>switch\<close>, not
  \<open>\<le> 0x0f\<close>, not in \<open>[0x10, 0x17]\<close>, not in \<open>[0xb0, 0xc0]\<close>) and which the assembler
  completes, as a one-byte command for which the table gives no parameter or with the
  second byte of a two-byte command, is acknowledged and interpreted without failure: a
  diagnostic is printed, the command index returns to 0, a control byte is expected next
  exactly in single-shot mode, and every register, cursor and pixel-memory cell is as
  before. The byte that follows is processed as usual: in continuous mode as the first
  byte of a new command, with its length looked up, and in single-shot mode as a control
  byte. The interpreter by itself does the same to every buffer that holds such an
  opcode.
\<close>

theorem unknown_opcode_ignored:
  fixes state :: sh1107_state and c v w :: u8
  assumes u: "c \<notin> switch_labels" "\<not> c \<le> 0x0f" "\<not> (0x10 \<le> c \<and> c \<le> 0x17)"
      "\<not> (0xb0 \<le> c \<and> c \<le> 0xc0)"
    and bus: "\<not> control_byte state" "command_mode state"
    and last: "current_command_index state = 0 \<and> v = c \<and> multi_byte_commands_at c = Some 0
               \<or> current_command_index state = 1 \<and> current_command_length state = 2
                 \<and> current_command state 0 = c"
  defines "t \<equiv> state\<lparr>current_command :=
                         (current_command state)(unat (current_command_index state) := v),
                       current_command_length :=
                         (if current_command_index state = 0 then 1 else 2),
                       printed := printed state @ [c],
                       current_command_index := 0,
                       control_byte := (\<not> continuous_mode state)\<rparr>"
  shows "sh1107_i2c_write state v = Some (True, t)
         \<and> sh1107_i2c_write t w =
             (if continuous_mode state then
                (case multi_byte_commands_at w of
                   None \<Rightarrow> None
                 | Some n \<Rightarrow>
                     (if 1 < 1 + n
                      then Some (True, t\<lparr>current_command := (current_command t)(0 := w),
                                          current_command_length := 1 + n,
                                          current_command_index := 1\<rparr>)
                      else Some (True, end_of_byte (sh1107_process_command
                                        (t\<lparr>current_command := (current_command t)(0 := w),
                                           current_command_length := 1 + n,
                                           current_command_index := 1\<rparr>)))))
              else Some (True, t\<lparr>command_mode := (w AND SH1107_CONTROL_DC = 0),
                                   continuous_mode := (w AND SH1107_CONTROL_CO = 0),
                                   control_byte := False\<rparr>))
         \<and> (\<forall>b. current_command b 0 = c \<longrightarrow>
                sh1107_process_command b =
                  b\<lparr>printed := printed b @ [c], current_command_index := 0\<rparr>)"
proof -
  have pc: "sh1107_process_command b = b\<lparr>printed := printed b @ [c], current_command_index := 0\<rparr>"
    if "current_command b 0 = c" for b
    using process_command_unknown [of b] u that by simp
  have w1: "sh1107_i2c_write state v = Some (True, t)"
    using last
  proof
    assume a: "current_command_index state = 0 \<and> v = c \<and> multi_byte_commands_at c = Some 0"
    define b where
      "b = state\<lparr>current_command := (current_command state)(0 := v),
                  current_command_length := 1 + 0, current_command_index := 1\<rparr>"
    have "current_command b 0 = c"
      using a by (simp add: b_def)
    then have "sh1107_process_command b = b\<lparr>printed := printed b @ [c], current_command_index := 0\<rparr>"
      by (rule pc)
    moreover have "sh1107_i2c_write state v = Some (True, end_of_byte (sh1107_process_command b))"
      using a bus by (simp add: i2c_write_first b_def)
    ultimately show ?thesis
      using a bus by (simp add: b_def t_def end_of_byte_def)
  next
    assume a: "current_command_index state = 1 \<and> current_command_length state = 2
                 \<and> current_command state 0 = c"
    define b where
      "b = state\<lparr>current_command := (current_command state)(1 := v),
                  current_command_index := 2\<rparr>"
    have "current_command b 0 = c"
      using a by (simp add: b_def)
    then have "sh1107_process_command b = b\<lparr>printed := printed b @ [c], current_command_index := 0\<rparr>"
      by (rule pc)
    moreover have "sh1107_i2c_write state v = Some (True, end_of_byte (sh1107_process_command b))"
      using a bus by (simp add: i2c_write_second b_def)
    ultimately show ?thesis
      using a bus by (simp add: b_def t_def end_of_byte_def)
  qed
  have tf: "command_mode t" "current_command_index t = 0"
    "control_byte t = (\<not> continuous_mode state)"
    using bus by (simp_all add: t_def)
  have w2: "sh1107_i2c_write t w =
             (if continuous_mode state then
                (case multi_byte_commands_at w of
                   None \<Rightarrow> None
                 | Some n \<Rightarrow>
                     (if 1 < 1 + n
                      then Some (True, t\<lparr>current_command := (current_command t)(0 := w),
                                          current_command_length := 1 + n,
                                          current_command_index := 1\<rparr>)
                      else Some (True, end_of_byte (sh1107_process_command
                                        (t\<lparr>current_command := (current_command t)(0 := w),
                                           current_command_length := 1 + n,
                                           current_command_index := 1\<rparr>)))))
              else Some (True, t\<lparr>command_mode := (w AND SH1107_CONTROL_DC = 0),
                                   continuous_mode := (w AND SH1107_CONTROL_CO = 0),
                                   control_byte := False\<rparr>))"
  proof (cases "continuous_mode state")
    case True
    then have "\<not> control_byte t"
      using tf(3) by simp
    then show ?thesis
      using True i2c_write_first [OF _ tf(1,2), of w] by simp
  next
    case False
    then have "control_byte t"
      using tf(3) by simp
    then show ?thesis
      using False i2c_write_control [of t w] by simp
  qed
  have w3: "\<forall>b. current_command b 0 = c \<longrightarrow>
                sh1107_process_command b =
                  b\<lparr>printed := printed b @ [c], current_command_index := 0\<rparr>"
    using pc by blast
  from w1 w2 w3 show ?thesis
    by (intro conjI)
qed


theorem unknown_opcode_ignored_witness:
  "run (chip_init zeroed_memory 128 128) [I2C_Connect, I2C_Write 0x00] = Some command_stream_chip
   \<and> 0x22 \<notin> switch_labels \<and> \<not> (0x22 :: u8) \<le> 0x0f
   \<and> \<not> (0x10 \<le> (0x22 :: u8) \<and> (0x22 :: u8) \<le> 0x17)
   \<and> \<not> (0xb0 \<le> (0x22 :: u8) \<and> (0x22 :: u8) \<le> 0xc0)
   \<and> \<not> control_byte command_stream_chip \<and> command_mode command_stream_chip
   \<and> current_command_index command_stream_chip = 0
   \<and> multi_byte_commands_at 0x22 = Some 0
   \<and> sh1107_i2c_write command_stream_chip 0x22 =
       Some (True, command_stream_chip\<lparr>current_command := (\<lambda>i. 0)(0 := 0x22),
                                        current_command_length := 1, printed := [0x22]\<rparr>)
   \<and> sh1107_i2c_write
         (command_stream_chip\<lparr>current_command := (\<lambda>i. 0)(0 := 0x22),
                              current_command_length := 1, printed := [0x22]\<rparr>)
         CMD_SET_CONTRAST =
       Some (True, command_stream_chip\<lparr>current_command := (\<lambda>i. 0)(0 := CMD_SET_CONTRAST),
                                        current_command_length := 2, printed := [0x22],
                                        current_command_index := 1\<rparr>)
   \<and> CMD_DCDC \<notin> switch_labels
   \<and> sh1107_i2c_write
         (command_stream_chip\<lparr>current_command := (\<lambda>i. 0)(0 := CMD_DCDC),
                              current_command_length := 2, current_command_index := 1\<rparr>)
         0x8b =
       Some (True, command_stream_chip\<lparr>current_command := (\<lambda>i. 0)(0 := CMD_DCDC, 1 := 0x8b),
                                        current_command_length := 2, printed := [CMD_DCDC]\<rparr>)"
proof -
  have r: "run (chip_init zeroed_memory 128 128) [I2C_Connect, I2C_Write 0x00]
             = Some command_stream_chip"
    by (simp add: command_stream_chip_def chip_init_def sh1107_reset_def zeroed_memory_def
        sh1107_i2c_connect_def sh1107_i2c_write_def)
  have u: "0x22 \<notin> switch_labels" "\<not> (0x22 :: u8) \<le> 0x0f"
    "\<not> (0x10 \<le> (0x22 :: u8) \<and> (0x22 :: u8) \<le> 0x17)"
    "\<not> (0xb0 \<le> (0x22 :: u8) \<and> (0x22 :: u8) \<le> 0xc0)"
    by (simp_all add: switch_labels_def)
  have d: "CMD_DCDC \<notin> switch_labels" "\<not> CMD_DCDC \<le> 0x0f"
    "\<not> (0x10 \<le> CMD_DCDC \<and> CMD_DCDC \<le> 0x17)"
    "\<not> (0xb0 \<le> CMD_DCDC \<and> CMD_DCDC \<le> 0xc0)"
    by (simp_all add: switch_labels_def)
  have bus: "\<not> control_byte command_stream_chip" "command_mode command_stream_chip"
    and i0: "current_command_index command_stream_chip = 0"
    and cont: "continuous_mode command_stream_chip"
    and z: "current_command command_stream_chip = (\<lambda>i. 0)" "printed command_stream_chip = []"
    by (simp_all add: command_stream_chip_def chip_init_def sh1107_reset_def zeroed_memory_def)
  have t0: "multi_byte_commands_at 0x22 = Some 0"
    and t1: "multi_byte_commands_at CMD_SET_CONTRAST = Some 1"
    by (simp_all add: multi_byte_commands_at_in_bounds)
  have one: "current_command_index command_stream_chip = 0 \<and> (0x22 :: u8) = 0x22
             \<and> multi_byte_commands_at 0x22 = Some 0
             \<or> current_command_index command_stream_chip = 1
               \<and> current_command_length command_stream_chip = 2
               \<and> current_command command_stream_chip 0 = 0x22"
    using i0 t0 by simp
  define mid where
    "mid = command_stream_chip\<lparr>current_command := (\<lambda>i. 0)(0 := CMD_DCDC),
                               current_command_length := 2, current_command_index := 1\<rparr>"
  have mbus: "\<not> control_byte mid" "command_mode mid"
    using bus by (simp_all add: mid_def)
  have two: "current_command_index mid = 0 \<and> (0x8b :: u8) = CMD_DCDC
             \<and> multi_byte_commands_at CMD_DCDC = Some 0
             \<or> current_command_index mid = 1 \<and> current_command_length mid = 2
               \<and> current_command mid 0 = CMD_DCDC"
    by (simp add: mid_def)
  note a = unknown_opcode_ignored [OF u bus one, of CMD_SET_CONTRAST]
  note b = unknown_opcode_ignored [OF d mbus two, of 0]
  have a1: "sh1107_i2c_write command_stream_chip 0x22 =
       Some (True, command_stream_chip\<lparr>current_command := (\<lambda>i. 0)(0 := 0x22),
                                        current_command_length := 1, printed := [0x22]\<rparr>)"
    using a i0 cont z bus by (simp add: command_stream_chip_def chip_init_def sh1107_reset_def zeroed_memory_def)
  have a2: "sh1107_i2c_write
         (command_stream_chip\<lparr>current_command := (\<lambda>i. 0)(0 := 0x22),
                              current_command_length := 1, printed := [0x22]\<rparr>)
         CMD_SET_CONTRAST =
       Some (True, command_stream_chip\<lparr>current_command := (\<lambda>i. 0)(0 := CMD_SET_CONTRAST),
                                        current_command_length := 2, printed := [0x22],
                                        current_command_index := 1\<rparr>)"
    using a i0 cont z bus t1 by (simp add: command_stream_chip_def chip_init_def sh1107_reset_def zeroed_memory_def)
  have b1: "sh1107_i2c_write mid 0x8b =
       Some (True, command_stream_chip\<lparr>current_command := (\<lambda>i. 0)(0 := CMD_DCDC, 1 := 0x8b),
                                        current_command_length := 2, printed := [CMD_DCDC]\<rparr>)"
    using b i0 cont z bus by (simp add: mid_def command_stream_chip_def chip_init_def sh1107_reset_def zeroed_memory_def)
  show ?thesis
    using r u bus i0 t0 a1 a2 d(1) b1 unfolding mid_def by simp
qed

end
